theory Spec2Isabelle
  imports Main
begin

section \<open>JavaScript values reaching the display\<close>

text \<open>
  The display of \<^verbatim>\<open>src/lib/dmd.js\<close> is a constructor function \<^verbatim>\<open>DMD\<close> whose
  closure holds the backing array \<^verbatim>\<open>data\<close>, the flag \<^verbatim>\<open>dirty\<close> and the array
  \<^verbatim>\<open>dirtyIndicies\<close>. The embedding passes that closure around as a record. Coordinates
  and sizes are integers, that is JavaScript numbers with an integral value. JavaScript
  computes with them in double precision: a sum or a product is the exact integer as long
  as its magnitude is at most \<open>2^53\<close>, and is rounded beyond. The embedding computes the
  exact integers; where a property speaks of numbers that the caller chooses freely, its
  statement bounds them so that the two agree. A call either returns or throws, and a
  throw keeps the mutations made before it.
\<close>

datatype error = TypeError | RangeError

datatype 'a completion = Return 'a | Throw error

text \<open>
  The values a caller may pass as the colour of \<^verbatim>\<open>set\<close>. \<^verbatim>\<open>typeof\<close> answers
  \<^verbatim>\<open>'object'\<close> for an array and for \<^verbatim>\<open>null\<close>, \<^verbatim>\<open>'undefined'\<close> for an omitted
  argument, and \<^verbatim>\<open>'string'\<close>, \<^verbatim>\<open>'number'\<close>, \<^verbatim>\<open>'boolean'\<close> for the primitives.
\<close>

datatype color =
    CString string
  | CArray "int list"
  | CUndefined
  | CNumber int
  | CBoolean bool
  | CNull

datatype jstype = TObject | TUndefined | TString | TNumber | TBoolean

fun typeof :: "color \<Rightarrow> jstype" where
  "typeof (CString s) = TString"
| "typeof (CArray a) = TObject"
| "typeof CUndefined = TUndefined"
| "typeof (CNumber n) = TNumber"
| "typeof (CBoolean b) = TBoolean"
| "typeof CNull = TObject"

text \<open>
  Number to string, for integral values of magnitude at most \<open>2^53\<close>: the decimal digits,
  a minus sign when negative. Up to that magnitude every integer is a double of its own
  and JavaScript writes all of its digits; beyond it JavaScript writes the shortest digits
  that read back as the same double, which this function does not follow, so the
  properties that name a stored \<open>rgb(...)\<close> string bound the channels by \<open>2^53\<close>.
\<close>

fun digits :: "nat \<Rightarrow> string" where
  "digits n = (if n < 10 then [''0123456789'' ! n]
               else digits (n div 10) @ [''0123456789'' ! (n mod 10)])"

declare digits.simps [simp del]

definition number_to_string :: "int \<Rightarrow> string" where
  "number_to_string n = (if n < 0 then CHR ''-'' # digits (nat (- n)) else digits (nat n))"

text \<open>\<^verbatim>\<open>Array.prototype.join()\<close> with its default separator, the comma.\<close>

fun join :: "int list \<Rightarrow> string" where
  "join [] = []"
| "join [n] = number_to_string n"
| "join (n # m # ns) = number_to_string n @ CHR '','' # join (m # ns)"

section \<open>The display object\<close>

text \<open>
  What the repaint callback asks of the drawing surface. The pixel geometry is floating
  point arithmetic on \<^verbatim>\<open>dot_size\<close> and is left out: a call is recorded with the cell
  index it is computed from and the fill style in effect (\<open>None\<close> when the style assigned
  was \<^verbatim>\<open>undefined\<close>, a hole of \<^verbatim>\<open>data\<close>).
\<close>

datatype surface_call =
    FillCanvas string
  | EraseDot int string
  | FillCircle int "string option"
  | FillSquare int "string option"

text \<open>
  \<^verbatim>\<open>data\<close> is a JavaScript array: \<open>data d k\<close> is the value stored under the integer
  key \<open>k\<close> (\<open>None\<close> for a hole or an absent key) and \<open>data_length d\<close> its \<^verbatim>\<open>length\<close>.
\<close>

record dmd =
  dot_size :: int
  dot_width :: int
  dot_height :: int
  refresh :: int
  drawMode :: string
  background :: string
  off :: string
  data :: "int \<rightharpoonup> string"
  data_length :: int
  dirty :: bool
  dirtyIndicies :: "int list"
  surface :: "surface_call list"

text \<open>
  The assignment \<^verbatim>\<open>data[k] = v\<close>. A key in \<open>[0, 2^32 - 1)\<close> is an array index and
  the array grows to hold it; any other integer key becomes a plain property of the array
  object and leaves \<^verbatim>\<open>length\<close> alone.
\<close>

definition data_put :: "dmd \<Rightarrow> int \<Rightarrow> string \<Rightarrow> dmd" where
  "data_put d k v =
     d\<lparr>data := (data d)(k \<mapsto> v),
       data_length := (if 0 \<le> k \<and> k < 4294967295 then max (data_length d) (k + 1)
                       else data_length d)\<rparr>"

text \<open>
  Lines 79 and 80 of \<^verbatim>\<open>dmd.set\<close>: the store into \<^verbatim>\<open>data\<close> and the push. The flat
  index \<open>y * dot_width + x\<close> is the exact integer here; the code computes it in doubles,
  which gives the same number when the product \<open>y * dot_width\<close> and the sum are of
  magnitude at most \<open>2^53\<close>, and a rounded one beyond.
\<close>

definition put_led :: "dmd \<Rightarrow> int \<Rightarrow> int \<Rightarrow> string \<Rightarrow> unit completion \<times> dmd" where
  "put_led d x y c =
     (let d1 = data_put d (y * dot_width d + x) c
      in (Return (), d1\<lparr>dirtyIndicies := dirtyIndicies d1 @ [y * dot_width d1 + x]\<rparr>))"

text \<open>
  \<^verbatim>\<open>dmd.set\<close>. The first branch takes every value whose \<^verbatim>\<open>typeof\<close> is
  \<^verbatim>\<open>'object'\<close>: an array is joined, and \<^verbatim>\<open>null\<close> has no \<^verbatim>\<open>join\<close>, which throws.
  The second branch is the omitted colour, the third returns on anything that is not a
  string. There is no test of \<open>x\<close> or \<open>y\<close>.
\<close>

fun set_dmd :: "dmd \<Rightarrow> int \<Rightarrow> int \<Rightarrow> color \<Rightarrow> unit completion \<times> dmd" where
  "set_dmd d x y (CArray a) = put_led d x y (''rgb('' @ join a @ '')'')"
| "set_dmd d x y CNull = (Throw TypeError, d)"
| "set_dmd d x y CUndefined = put_led d x y (off d)"
| "set_dmd d x y (CNumber n) = (Return (), d)"
| "set_dmd d x y (CBoolean b) = (Return (), d)"
| "set_dmd d x y (CString s) = put_led d x y s"

text \<open>
  \<^verbatim>\<open>dmd.clear\<close>: the loop runs over the indices below \<^verbatim>\<open>data.length\<close>, which the
  stores do not change.
\<close>

definition clear :: "dmd \<Rightarrow> dmd" where
  "clear d = (fold (\<lambda>i s. data_put s i (off s)) [0..data_length d - 1] d)\<lparr>dirty := True\<rparr>"

text \<open>
  \<^verbatim>\<open>dmd.draw\<close>. A row of the shape is an array of numbers, or a number (the form the
  commented-out branch was written for, which the live code skips). The inner loop goes
  through one row with its column counter \<open>j\<close>, the outer loop through the rows with
  \<open>i\<close>; both carry \<^verbatim>\<open>hasPrinted\<close>.
\<close>

datatype row = RowArray "int list" | RowNumber int

record draw_options =
  color :: color
  fill :: bool

fun draw_cols ::
  "int \<Rightarrow> int \<Rightarrow> color \<Rightarrow> bool \<Rightarrow> int list \<Rightarrow> int \<Rightarrow> bool \<Rightarrow> dmd \<Rightarrow> bool completion \<times> dmd"
where
  "draw_cols x paintingY c forceFill [] j hasPrinted d = (Return hasPrinted, d)"
| "draw_cols x paintingY c forceFill (b # bs) j hasPrinted d =
     (let paintingX = x + j in
      if 0 \<le> paintingX \<and> paintingX < dot_width d then
        (let show = (b = 1) in
         if show \<or> forceFill then
           (case set_dmd d paintingX paintingY (if show then c else CUndefined) of
              (Throw e, d') \<Rightarrow> (Throw e, d')
            | (Return u, d') \<Rightarrow> draw_cols x paintingY c forceFill bs (j + 1) True d')
         else draw_cols x paintingY c forceFill bs (j + 1) hasPrinted d)
      else draw_cols x paintingY c forceFill bs (j + 1) hasPrinted d)"

fun draw_rows ::
  "int \<Rightarrow> int \<Rightarrow> color \<Rightarrow> bool \<Rightarrow> row list \<Rightarrow> int \<Rightarrow> bool \<Rightarrow> dmd \<Rightarrow> bool completion \<times> dmd"
where
  "draw_rows x y c forceFill [] i hasPrinted d = (Return hasPrinted, d)"
| "draw_rows x y c forceFill (r # rs) i hasPrinted d =
     (let paintingY = y + i in
      if 0 \<le> paintingY \<and> paintingY < dot_height d then
        (case r of
           RowArray bits \<Rightarrow>
             (case draw_cols x paintingY c forceFill bits 0 hasPrinted d of
                (Throw e, d') \<Rightarrow> (Throw e, d')
              | (Return hp, d') \<Rightarrow> draw_rows x y c forceFill rs (i + 1) hp d')
         | RowNumber n \<Rightarrow> draw_rows x y c forceFill rs (i + 1) hasPrinted d)
      else draw_rows x y c forceFill rs (i + 1) hasPrinted d)"

definition draw :: "dmd \<Rightarrow> int \<Rightarrow> int \<Rightarrow> row list \<Rightarrow> draw_options \<Rightarrow> bool completion \<times> dmd" where
  "draw d x y shape options = draw_rows x y (color options) (fill options) shape 0 False d"

text \<open>
  A \<^verbatim>\<open>for\<close> loop over a range of integers whose body may throw: the loop stops at the
  first throw.
\<close>

fun for_each ::
  "int list \<Rightarrow> (int \<Rightarrow> dmd \<Rightarrow> unit completion \<times> dmd) \<Rightarrow> dmd \<Rightarrow> unit completion \<times> dmd"
where
  "for_each [] body d = (Return (), d)"
| "for_each (i # is) body d =
     (case body i d of
        (Throw e, d') \<Rightarrow> (Throw e, d')
      | (Return u, d') \<Rightarrow> for_each is body d')"

text \<open>\<^verbatim>\<open>dmd.fill\<close> and \<^verbatim>\<open>dmd.rect\<close>: \<open>i\<close> runs over the columns, \<open>j\<close> over the rows.\<close>

definition fill_dmd :: "dmd \<Rightarrow> int \<Rightarrow> int \<Rightarrow> int \<Rightarrow> int \<Rightarrow> color \<Rightarrow> unit completion \<times> dmd" where
  "fill_dmd d x y w h c =
     for_each [x..x + w - 1] (\<lambda>i. for_each [y..y + h - 1] (\<lambda>j s. set_dmd s i j c)) d"


section \<open>The repaint callback\<close>

definition emit :: "dmd \<Rightarrow> surface_call \<Rightarrow> dmd" where
  "emit d call = d\<lparr>surface := surface d @ [call]\<rparr>"

definition updateLed :: "dmd \<Rightarrow> int \<Rightarrow> bool \<Rightarrow> dmd" where
  "updateLed d i flush =
     (let led = data d i;
          d1 = (if flush then emit d (EraseDot i (background d)) else d)
      in if drawMode d = ''circle'' then emit d1 (FillCircle i led)
         else emit d1 (FillSquare i led))"

definition painter :: "dmd \<Rightarrow> dmd" where
  "painter d =
     (if \<not> dirty d \<and> length (dirtyIndicies d) = 0 then d
      else
        (let d1 = (if dirty d then emit d (FillCanvas (background d)) else d) in
         if dirty d1 then
           (fold (\<lambda>i s. updateLed s i False) [0..data_length d1 - 1] d1)\<lparr>dirty := False\<rparr>
         else
           (fold (\<lambda>index s. updateLed s index True) (dirtyIndicies d1) d1)
             \<lparr>dirtyIndicies := []\<rparr>))"

section \<open>Construction\<close>

record canvas =
  canvas_width :: int
  canvas_height :: int

text \<open>An option that the caller left out is \<open>None\<close>.\<close>

record config =
  config_dot_size :: "int option"
  config_refresh :: "int option"
  config_drawMode :: "string option"
  config_background :: "string option"
  config_off :: "string option"

text \<open>\<^verbatim>\<open>v || dflt\<close>: the default replaces every falsy value, also \<open>0\<close> and the empty string.\<close>

definition or_number :: "int option \<Rightarrow> int \<Rightarrow> int" where
  "or_number v dflt = (case v of None \<Rightarrow> dflt | Some n \<Rightarrow> if n = 0 then dflt else n)"

definition or_string :: "string option \<Rightarrow> string \<Rightarrow> string" where
  "or_string v dflt = (case v of None \<Rightarrow> dflt | Some s \<Rightarrow> if s = [] then dflt else s)"

text \<open>
  The constructor \<^verbatim>\<open>DMD\<close>, up to the installation of the timer. \<^verbatim>\<open>new Array(n)\<close>
  throws a RangeError unless \<open>n\<close> is in \<open>[0, 2^32 - 1]\<close>, and otherwise is an array of
  \<open>n\<close> holes.
\<close>

definition DMD :: "canvas \<Rightarrow> config \<Rightarrow> dmd completion" where
  "DMD cv cfg =
     (let ds = or_number (config_dot_size cfg) 20;
          dw = canvas_width cv div ds;
          dh = canvas_height cv div ds
      in if dw * dh < 0 \<or> 4294967295 < dw * dh then Throw RangeError
         else Return (clear
           \<lparr>dot_size = ds, dot_width = dw, dot_height = dh,
            refresh = or_number (config_refresh cfg) 50,
            drawMode = or_string (config_drawMode cfg) ''circle'',
            background = or_string (config_background cfg) ''rgb(60,60,60)'',
            off = or_string (config_off cfg) ''rgb(50,50,50)'',
            data = Map.empty, data_length = dw * dh,
            dirty = True, dirtyIndicies = [], surface = []\<rparr>))"

section \<open>The text printer\<close>

text \<open>
  A glyph is an array of rows that carries its cached \<^verbatim>\<open>width\<close> as a property
  (\<open>None\<close> while the property is undefined). It is an object, and the caching writes
  into it: a font holds references to its glyphs, two properties of a font may hold the
  same glyph, and the heap \<open>h\<close> gives the object \<open>h r\<close> behind each reference \<open>r\<close>.
  A font is an object that the code only reads: \<open>glyphs f k\<close> is the reference held by
  its property named \<open>k\<close> (\<open>None\<close> when it has no such property), and \<open>font_length f\<close>
  the value of its property \<^verbatim>\<open>length\<close>, which an object literal keyed by characters
  does not have.
\<close>

record glyph =
  rows :: "row list"
  width :: "int option"

type_synonym ref = nat

type_synonym glyph_heap = "ref \<Rightarrow> glyph"

record font_table =
  glyphs :: "string \<rightharpoonup> ref"
  font_length :: "int option"

definition updateFontData :: "glyph \<Rightarrow> glyph" where
  "updateFontData characterFont =
     characterFont\<lparr>width :=
       Some (fold (\<lambda>r w. case r of RowArray bits \<Rightarrow> max w (int (length bits))
                                  | RowNumber n \<Rightarrow> w)
                  (rows characterFont) 0)\<rparr>"

text \<open>\<^verbatim>\<open>!characterFont.width\<close>: the width is undefined or \<open>0\<close>.\<close>

definition no_width :: "glyph \<Rightarrow> bool" where
  "no_width g = (case width g of None \<Rightarrow> True | Some w \<Rightarrow> w = 0)"

text \<open>
  \<^verbatim>\<open>updateFont\<close>: the loop counts \<open>i\<close> up to \<^verbatim>\<open>font.length\<close> and reads the property
  named by the number \<open>i\<close>. With \<^verbatim>\<open>font.length\<close> undefined the test \<^verbatim>\<open>i < undefined\<close>
  is false at once; a missing property below the length throws on \<^verbatim>\<open>.width\<close>.
\<close>

function updateFont_loop ::
  "font_table \<Rightarrow> glyph_heap \<Rightarrow> int \<Rightarrow> unit completion \<times> glyph_heap"
where
  "updateFont_loop f h i =
     (case font_length f of
        None \<Rightarrow> (Return (), h)
      | Some n \<Rightarrow>
          if i < n then
            (case glyphs f (number_to_string i) of
               None \<Rightarrow> (Throw TypeError, h)
             | Some characterFont \<Rightarrow>
                 updateFont_loop f
                   (if no_width (h characterFont)
                    then h(characterFont := updateFontData (h characterFont))
                    else h)
                   (i + 1))
          else (Return (), h))"
  by pat_completeness auto
termination
  by (relation "measure (\<lambda>(f, h, i). case font_length f of None \<Rightarrow> 0 | Some n \<Rightarrow> nat (n - i))")
     auto

declare updateFont_loop.simps [simp del]

definition updateFont :: "font_table \<Rightarrow> glyph_heap \<Rightarrow> unit completion \<times> glyph_heap" where
  "updateFont f h = updateFont_loop f h 0"

text \<open>
  \<^verbatim>\<open>print\<close>. The glyph is looked up under the one-character string; the caching step
  of lines 272 to 274 is \<open>cache_width\<close>, written into the glyph object on the heap, where
  every property that holds the same glyph sees it. \<open>width_value\<close> reads
  \<^verbatim>\<open>characterFont.width\<close> for the addition in line 278, which happens after the caching
  step, where the property is a number. The heap that \<^verbatim>\<open>print\<close> leaves behind is
  returned with the result. The message that \<^verbatim>\<open>console.log\<close> writes for a skipped
  character is not recorded.
\<close>

record text_options = draw_options +
  font :: font_table

definition cache_width :: "glyph \<Rightarrow> glyph" where
  "cache_width characterFont =
     (if no_width characterFont then updateFontData characterFont else characterFont)"

definition width_value :: "glyph \<Rightarrow> int" where
  "width_value g = (case width g of Some w \<Rightarrow> w | None \<Rightarrow> 0)"

fun print_loop ::
  "dmd \<Rightarrow> font_table \<Rightarrow> glyph_heap \<Rightarrow> int \<Rightarrow> draw_options \<Rightarrow> string \<Rightarrow> int \<Rightarrow> nat
   \<Rightarrow> bool completion \<times> dmd \<times> glyph_heap"
where
  "print_loop d f h y drawOptions [] currentX printed = (Return (0 < printed), d, h)"
| "print_loop d f h y drawOptions (c # cs) currentX printed =
     (if currentX \<le> dot_width d then
        (case glyphs f [c] of
           None \<Rightarrow> print_loop d f h y drawOptions cs currentX printed
         | Some characterFont \<Rightarrow>
             (let h1 = h(characterFont := cache_width (h characterFont))
              in case draw d currentX y (rows (h1 characterFont)) drawOptions of
                   (Throw e, d1) \<Rightarrow> (Throw e, d1, h1)
                 | (Return b, d1) \<Rightarrow>
                     print_loop d1 f h1 y drawOptions cs
                       (currentX + (width_value (h1 characterFont) + 1))
                       (if b then printed + 1 else printed)))
      else (Return (0 < printed), d, h))"

definition print ::
  "dmd \<Rightarrow> glyph_heap \<Rightarrow> int \<Rightarrow> int \<Rightarrow> string \<Rightarrow> text_options
   \<Rightarrow> bool completion \<times> dmd \<times> glyph_heap"
where
  "print d h x y txt options =
     print_loop d (font options) h y \<lparr>color = color options, fill = fill options\<rparr> txt x 0"

section \<open>Notions used to state the properties\<close>


text \<open>
  \<^verbatim>\<open>shape[i][j]\<close> where \<^verbatim>\<open>draw\<close> reads it: row \<open>i\<close> exists and is an array, and
  \<open>j\<close> is below its length.
\<close>

definition bit_at :: "row list \<Rightarrow> nat \<Rightarrow> nat \<Rightarrow> int option" where
  "bit_at shape i j =
     (if i < length shape then
        (case shape ! i of
           RowArray bits \<Rightarrow> if j < length bits then Some (bits ! j) else None
         | RowNumber n \<Rightarrow> None)
      else None)"

text \<open>The length of a row that is an array; a row that is a number counts for nothing.\<close>

fun row_length :: "row \<Rightarrow> int" where
  "row_length (RowArray bits) = int (length bits)"
| "row_length (RowNumber n) = 0"

text \<open>
  The width of a glyph as \<^verbatim>\<open>print\<close> uses it: the cached width when there is one
  that is not 0, and otherwise the greatest length of its rows (0 when it has none).
\<close>

definition advance_width :: "glyph \<Rightarrow> int" where
  "advance_width g =
     (case width g of
        Some w \<Rightarrow> if w = 0 then Max (insert 0 (row_length ` set (rows g))) else w
      | None \<Rightarrow> Max (insert 0 (row_length ` set (rows g))))"

text \<open>
  The completions of the calls of \<^verbatim>\<open>dmd.draw\<close> that the loop of \<^verbatim>\<open>print\<close> makes,
  in order.
\<close>

fun print_draws ::
  "dmd \<Rightarrow> font_table \<Rightarrow> glyph_heap \<Rightarrow> int \<Rightarrow> draw_options \<Rightarrow> string \<Rightarrow> int
   \<Rightarrow> bool completion list"
where
  "print_draws d f h y drawOptions [] currentX = []"
| "print_draws d f h y drawOptions (c # cs) currentX =
     (if currentX \<le> dot_width d then
        (case glyphs f [c] of
           None \<Rightarrow> print_draws d f h y drawOptions cs currentX
         | Some characterFont \<Rightarrow>
             (let h1 = h(characterFont := cache_width (h characterFont))
              in case draw d currentX y (rows (h1 characterFont)) drawOptions of
                   (Throw e, d1) \<Rightarrow> [Throw e]
                 | (Return b, d1) \<Rightarrow>
                     Return b # print_draws d1 f h1 y drawOptions cs
                       (currentX + (width_value (h1 characterFont) + 1))))
      else [])"

text \<open>
  The display of the examples: a canvas of 4 by 4 pixels with \<^verbatim>\<open>dot_size\<close> 1 and the
  other options left out, as the constructor leaves it.
\<close>

definition canvas4 :: canvas where
  "canvas4 = \<lparr>canvas_width = 4, canvas_height = 4\<rparr>"

definition config1 :: config where
  "config1 = \<lparr>config_dot_size = Some 1, config_refresh = None, config_drawMode = None,
              config_background = None, config_off = None\<rparr>"

definition display4 :: dmd where
  "display4 =
     \<lparr>dot_size = 1, dot_width = 4, dot_height = 4, refresh = 50, drawMode = ''circle'',
      background = ''rgb(60,60,60)'', off = ''rgb(50,50,50)'',
      data = (\<lambda>k. if 0 \<le> k \<and> k < 16 then Some ''rgb(50,50,50)'' else None),
      data_length = 16, dirty = True, dirtyIndicies = [], surface = []\<rparr>"

text \<open>
  The font of the examples: the object literal \<^verbatim>\<open>{'A': [[0,1,0],[1,1,1]]}\<close>, its glyph
  behind the reference 0 of the heap \<open>heap_A\<close>; and a font whose properties \<open>a\<close> and \<open>A\<close>
  hold that one glyph.
\<close>

definition glyph_A :: glyph where
  "glyph_A = \<lparr>rows = [RowArray [0, 1, 0], RowArray [1, 1, 1]], width = None\<rparr>"

definition heap_A :: glyph_heap where
  "heap_A = (\<lambda>r. \<lparr>rows = [], width = None\<rparr>)(0 := glyph_A)"

definition font_A :: font_table where
  "font_A = \<lparr>glyphs = [''A'' \<mapsto> 0], font_length = None\<rparr>"

definition font_aA :: font_table where
  "font_aA = \<lparr>glyphs = [''a'' \<mapsto> 0, ''A'' \<mapsto> 0], font_length = None\<rparr>"

definition shape_A :: "row list" where
  "shape_A = [RowArray [0, 1, 0], RowArray [1, 1, 1]]"

definition white :: draw_options where
  "white = \<lparr>color = CString ''white'', fill = False\<rparr>"

definition font_none :: font_table where
  "font_none = \<lparr>glyphs = Map.empty, font_length = None\<rparr>"

definition options_A :: text_options where
  "options_A = \<lparr>color = CString ''white'', fill = False, font = font_A\<rparr>"

definition options_none :: text_options where
  "options_none = \<lparr>color = CString ''white'', fill = False, font = font_none\<rparr>"

definition options_aA :: text_options where
  "options_aA = \<lparr>color = CString ''white'', fill = False, font = font_aA\<rparr>"

subsection \<open>Notions used in the proofs\<close>

text \<open>
  \<open>frame K d d'\<close>: from \<open>d\<close> to \<open>d'\<close> the geometry, the off colour, the flag and the
  surface stay, the backing array changes under keys of \<open>K\<close> only, \<^verbatim>\<open>dirtyIndicies\<close>
  grows at its end by elements of \<open>K\<close>, and the length of the backing array stays when
  \<open>K\<close> lies below it.
\<close>

definition frame :: "int set \<Rightarrow> dmd \<Rightarrow> dmd \<Rightarrow> bool" where
  "frame K d d' \<longleftrightarrow>
     dot_width d' = dot_width d \<and> dot_height d' = dot_height d \<and> off d' = off d
     \<and> dirty d' = dirty d \<and> surface d' = surface d
     \<and> (\<forall>k. k \<notin> K \<longrightarrow> data d' k = data d k)
     \<and> (\<exists>added. dirtyIndicies d' = dirtyIndicies d @ added \<and> set added \<subseteq> K)
     \<and> ((\<forall>k\<in>K. 0 \<le> k \<and> k < data_length d) \<longrightarrow> data_length d' = data_length d)"

text \<open>
  The flat indices for which the inner loop of \<^verbatim>\<open>draw\<close> calls \<^verbatim>\<open>set\<close> on a row
  that starts at column \<open>x0\<close> of the grid row \<open>py\<close>, and those of the whole shape.
\<close>

definition cols_keys :: "int \<Rightarrow> int \<Rightarrow> int \<Rightarrow> bool \<Rightarrow> int list \<Rightarrow> int set" where
  "cols_keys W x0 py ff bs =
     {py * W + (x0 + int n) | n.
        n < length bs \<and> 0 \<le> x0 + int n \<and> x0 + int n < W \<and> (bs ! n = 1 \<or> ff)}"

definition rows_keys :: "int \<Rightarrow> int \<Rightarrow> int \<Rightarrow> int \<Rightarrow> bool \<Rightarrow> row list \<Rightarrow> int set" where
  "rows_keys W H x y0 ff rs =
     {(y0 + int m) * W + (x + int n) | m n.
        0 \<le> y0 + int m \<and> y0 + int m < H \<and> 0 \<le> x + int n \<and> x + int n < W
        \<and> (\<exists>b. bit_at rs m n = Some b \<and> (b = 1 \<or> ff))}"


section \<open>The backing array and \<^verbatim>\<open>set\<close>\<close>

lemma data_put_simps [simp]:
  "data (data_put d k v) = (data d)(k \<mapsto> v)"
  "dot_width (data_put d k v) = dot_width d"
  "dot_height (data_put d k v) = dot_height d"
  "off (data_put d k v) = off d"
  "dirty (data_put d k v) = dirty d"
  "dirtyIndicies (data_put d k v) = dirtyIndicies d"
  "surface (data_put d k v) = surface d"
  "drawMode (data_put d k v) = drawMode d"
  "background (data_put d k v) = background d"
  by (simp_all add: data_put_def)

lemma data_put_length:
  "0 \<le> k \<Longrightarrow> k < data_length d \<Longrightarrow> data_length (data_put d k v) = data_length d"
  by (simp add: data_put_def)

lemma clear_fold:
  "\<forall>k\<in>set ks. 0 \<le> k \<and> k < data_length d \<Longrightarrow>
   fold (\<lambda>i s. data_put s i (off s)) ks d =
     d\<lparr>data := (\<lambda>k. if k \<in> set ks then Some (off d) else data d k)\<rparr>"
proof (induction ks arbitrary: d)
  case Nil
  then show ?case by simp
next
  case (Cons a ks)
  have len: "data_length (data_put d a (off d)) = data_length d"
    using Cons.prems by (simp add: data_put_length)
  have "fold (\<lambda>i s. data_put s i (off s)) ks (data_put d a (off d)) =
        (data_put d a (off d))\<lparr>data := (\<lambda>k. if k \<in> set ks then Some (off (data_put d a (off d)))
                                      else data (data_put d a (off d)) k)\<rparr>"
    using Cons.prems by (intro Cons.IH) (simp add: len)
  also have "\<dots> = d\<lparr>data := (\<lambda>k. if k \<in> set (a # ks) then Some (off d) else data d k)\<rparr>"
    using Cons.prems by (auto simp: data_put_def fun_eq_iff)
  finally show ?case by simp
qed

text \<open>\<^verbatim>\<open>clear\<close> puts the off colour under every index below the length and raises the flag.\<close>

lemma clear_eq:
  "clear d = d\<lparr>data := (\<lambda>k. if 0 \<le> k \<and> k < data_length d then Some (off d) else data d k),
              dirty := True\<rparr>"
proof -
  have "(\<lambda>k. if k \<in> set [0..data_length d - 1] then Some (off d) else data d k) =
        (\<lambda>k. if 0 \<le> k \<and> k < data_length d then Some (off d) else data d k)"
    by (auto simp: fun_eq_iff)
  then show ?thesis
    unfolding clear_def by (subst clear_fold) auto
qed

text \<open>The display of the examples is the one the constructor builds.\<close>

lemma DMD_display4: "DMD canvas4 config1 = Return display4"
  by (simp add: DMD_def canvas4_def config1_def display4_def or_number_def or_string_def
      clear_eq fun_eq_iff)

lemma display4_fields [simp]:
  "dot_width display4 = 4" "dot_height display4 = 4" "off display4 = ''rgb(50,50,50)''"
  "dirtyIndicies display4 = []" "data_length display4 = 16" "dirty display4 = True"
  "data display4 k = (if 0 \<le> k \<and> k < 16 then Some ''rgb(50,50,50)'' else None)"
  by (simp_all add: display4_def)

lemma put_led_simps [simp]:
  "fst (put_led d x y s) = Return ()"
  "data (snd (put_led d x y s)) = (data d)(y * dot_width d + x \<mapsto> s)"
  "dirtyIndicies (snd (put_led d x y s)) = dirtyIndicies d @ [y * dot_width d + x]"
  "dot_width (snd (put_led d x y s)) = dot_width d"
  "dot_height (snd (put_led d x y s)) = dot_height d"
  "off (snd (put_led d x y s)) = off d"
  "dirty (snd (put_led d x y s)) = dirty d"
  "surface (snd (put_led d x y s)) = surface d"
  by (simp_all add: put_led_def Let_def)

lemma put_led_length:
  "0 \<le> y * dot_width d + x \<Longrightarrow> y * dot_width d + x < data_length d \<Longrightarrow>
   data_length (snd (put_led d x y s)) = data_length d"
  by (simp add: put_led_def Let_def data_put_def)


lemma set_dmd_frame [simp]:
  "dot_width (snd (set_dmd d x y c)) = dot_width d"
  "dot_height (snd (set_dmd d x y c)) = dot_height d"
  "off (snd (set_dmd d x y c)) = off d"
  "dirty (snd (set_dmd d x y c)) = dirty d"
  "surface (snd (set_dmd d x y c)) = surface d"
  by (cases c; simp)+

lemma set_dmd_other_key:
  "k \<noteq> y * dot_width d + x \<Longrightarrow> data (snd (set_dmd d x y c)) k = data d k"
  by (cases c) simp_all

lemma set_dmd_returns: "c \<noteq> CNull \<Longrightarrow> fst (set_dmd d x y c) = Return ()"
  by (cases c) simp_all

text \<open>
  The flat index of a cell of the grid lies in \<open>[0, W * H)\<close>, and two cells of the grid
  with the same flat index are the same cell.
\<close>

lemma flat_index_range:
  fixes W H :: int
  assumes "0 \<le> a" "a < W" "0 \<le> p" "p < H"
  shows "0 \<le> p * W + a \<and> p * W + a < W * H"
proof -
  have "(p + 1) * W \<le> H * W"
    using assms by (intro mult_right_mono) auto
  then have "p * W + a < W * H"
    using assms by (simp add: algebra_simps)
  moreover have "0 \<le> p * W" using assms by simp
  ultimately show ?thesis using assms by simp
qed

lemma flat_index_inj:
  fixes W :: int
  assumes "0 \<le> a" "a < W" "0 \<le> b" "b < W" "p * W + a = q * W + b"
  shows "p = q \<and> a = b"
proof -
  have "a = (p * W + a) mod W" using assms(1,2) by simp
  also have "\<dots> = (q * W + b) mod W" by (simp only: assms(5))
  also have "\<dots> = b" using assms(3,4) by simp
  finally have ab: "a = b" .
  then have "p * W = q * W" using assms by simp
  moreover have "W \<noteq> 0" using assms by auto
  ultimately show ?thesis using ab by simp
qed

text \<open>
  C2, as the code has it. \<^verbatim>\<open>dmd.set\<close> does not test its coordinates. For coordinates
  whose flat index the code computes exactly (the product \<open>y * dot_width\<close> and the sum
  \<open>y * dot_width + x\<close> of magnitude at most \<open>2^53\<close>), the one key of the backing array
  whose value a call \<open>set(x, y, c)\<close> can change is the flat index \<open>y * dot_width + x\<close>.
  So when that index is outside \<open>[0, dot_width * dot_height)\<close> every cell of the grid
  keeps its colour; when a coordinate outside the grid has its flat index inside that
  range, the cell that owns the index is overwritten.
\<close>

theorem set_writes_one_key:
  assumes "\<bar>y * dot_width d\<bar> \<le> 2 ^ 53" and "\<bar>y * dot_width d + x\<bar> \<le> 2 ^ 53"
  shows "(k \<noteq> y * dot_width d + x \<longrightarrow> data (snd (set_dmd d x y c)) k = data d k)
   \<and> ((y * dot_width d + x < 0 \<or> dot_width d * dot_height d \<le> y * dot_width d + x)
        \<and> 0 \<le> x' \<and> x' < dot_width d \<and> 0 \<le> y' \<and> y' < dot_height d
      \<longrightarrow> data (snd (set_dmd d x y c)) (y' * dot_width d + x') = data d (y' * dot_width d + x'))"
proof (intro conjI impI)
  assume "k \<noteq> y * dot_width d + x"
  then show "data (snd (set_dmd d x y c)) k = data d k" by (rule set_dmd_other_key)
next
  assume a: "(y * dot_width d + x < 0 \<or> dot_width d * dot_height d \<le> y * dot_width d + x)
        \<and> 0 \<le> x' \<and> x' < dot_width d \<and> 0 \<le> y' \<and> y' < dot_height d"
  then have "0 \<le> y' * dot_width d + x' \<and> y' * dot_width d + x' < dot_width d * dot_height d"
    by (intro flat_index_range) auto
  with a have "y' * dot_width d + x' \<noteq> y * dot_width d + x" by linarith
  then show "data (snd (set_dmd d x y c)) (y' * dot_width d + x') = data d (y' * dot_width d + x')"
    by (rule set_dmd_other_key)
qed

text \<open>
  On the 4 by 4 display: \<open>set(4, 0, 'red')\<close> leaves index 3 alone, and \<open>set(0, 4, 'red')\<close>,
  whose flat index is 16, leaves the cell (3, 3) alone.
\<close>

theorem set_writes_one_key_witness:
  "\<bar>0 * dot_width display4\<bar> \<le> 2 ^ 53 \<and> \<bar>0 * dot_width display4 + 4\<bar> \<le> 2 ^ 53
   \<and> 3 \<noteq> 0 * dot_width display4 + 4
   \<and> data (snd (set_dmd display4 4 0 (CString ''red''))) 3 = data display4 3
   \<and> \<bar>4 * dot_width display4\<bar> \<le> 2 ^ 53 \<and> \<bar>4 * dot_width display4 + 0\<bar> \<le> 2 ^ 53
   \<and> dot_width display4 * dot_height display4 \<le> 4 * dot_width display4 + 0
   \<and> (0::int) \<le> 3 \<and> 3 < dot_width display4 \<and> 3 < dot_height display4
   \<and> data (snd (set_dmd display4 0 4 (CString ''red''))) (3 * dot_width display4 + 3)
       = data display4 (3 * dot_width display4 + 3)"
proof -
  have w: "dot_width display4 = 4" and h: "dot_height display4 = 4"
    by (simp_all add: display4_def)
  have b1: "\<bar>0 * dot_width display4\<bar> \<le> 2 ^ 53" "\<bar>0 * dot_width display4 + 4\<bar> \<le> 2 ^ 53"
    by (simp_all add: w)
  have b2: "\<bar>4 * dot_width display4\<bar> \<le> 2 ^ 53" "\<bar>4 * dot_width display4 + 0\<bar> \<le> 2 ^ 53"
    by (simp_all add: w)
  show ?thesis
    using set_writes_one_key [OF b1, of 3 "CString ''red''" 3 3]
          set_writes_one_key [OF b2, of 3 "CString ''red''" 3 3] b1 b2
    by (simp add: w h)
qed

text \<open>
  The claim as the specification words it fails: on the 4 by 4 display the coordinate
  (4, 0) is outside the grid, and \<open>set(4, 0, 'red')\<close> overwrites the cell (0, 1), whose
  flat index is 4 as well.
\<close>

theorem set_out_of_grid_counterexample:
  "\<not> (4 < dot_width display4) \<and> 0 < dot_width display4 \<and> 1 < dot_height display4
   \<and> data display4 (1 * dot_width display4 + 0) = Some ''rgb(50,50,50)''
   \<and> data (snd (set_dmd display4 4 0 (CString ''red''))) (1 * dot_width display4 + 0)
       = Some ''red''"
  by (simp add: display4_def)

text \<open>
  C5, as the code has it. A colour whose \<^verbatim>\<open>typeof\<close> is neither \<^verbatim>\<open>'object'\<close> nor
  \<^verbatim>\<open>'undefined'\<close> nor \<^verbatim>\<open>'string'\<close> (a number, a boolean) makes \<^verbatim>\<open>set\<close> return
  without an error and with the display as it was: no cell changes and nothing is pushed
  on \<^verbatim>\<open>dirtyIndicies\<close>.
\<close>

theorem set_invalid_color_noop:
  "typeof c \<notin> {TObject, TUndefined, TString} \<Longrightarrow> set_dmd d x y c = (Return (), d)"
  by (cases c) simp_all

theorem set_invalid_color_noop_witness:
  "typeof (CNumber 7) \<notin> {TObject, TUndefined, TString}
   \<and> set_dmd display4 1 1 (CNumber 7) = (Return (), display4)"
  using set_invalid_color_noop [of "CNumber 7" display4 1 1] by simp

text \<open>
  The claim as the specification words it fails on the values whose \<^verbatim>\<open>typeof\<close> is
  \<^verbatim>\<open>'object'\<close>: the array \<open>[1, 2]\<close> is no triple, and \<open>set(0, 0, [1, 2])\<close> stores
  \<open>'rgb(1,2)'\<close> and pushes the index; \<open>set(0, 0, null)\<close> throws.
\<close>

theorem set_short_array_counterexample:
  "data display4 0 = Some ''rgb(50,50,50)''
   \<and> data (snd (set_dmd display4 0 0 (CArray [1, 2]))) 0 = Some ''rgb(1,2)''
   \<and> dirtyIndicies display4 = []
   \<and> dirtyIndicies (snd (set_dmd display4 0 0 (CArray [1, 2]))) = [0]
   \<and> fst (set_dmd display4 0 0 CNull) = Throw TypeError"
  by (simp add: display4_def number_to_string_def digits.simps)

text \<open>
  C6. For a coordinate inside the grid and a colour that is a string, a triple or omitted,
  \<^verbatim>\<open>set\<close> returns, the cell at the flat index \<open>y * dot_width + x\<close> holds the string
  itself, \<open>'rgb(r,g,b)'\<close> joined from the triple, or the off colour, and the flat index,
  which is an index of the grid, is in \<^verbatim>\<open>dirtyIndicies\<close>. The channels of the
  triple are integers of magnitude at most \<open>2^53\<close>, which \<^verbatim>\<open>join\<close> writes with all
  their decimal digits.
\<close>

theorem set_in_bounds:
  assumes "0 \<le> x" "x < dot_width d" "0 \<le> y" "y < dot_height d"
    and "\<bar>r\<bar> \<le> 2 ^ 53" "\<bar>g\<bar> \<le> 2 ^ 53" "\<bar>b\<bar> \<le> 2 ^ 53"
  shows "data (snd (set_dmd d x y (CString s))) (y * dot_width d + x) = Some s
    \<and> data (snd (set_dmd d x y (CArray [r, g, b]))) (y * dot_width d + x) =
        Some (''rgb('' @ number_to_string r @ '','' @ number_to_string g @ '',''
              @ number_to_string b @ '')'')
    \<and> data (snd (set_dmd d x y CUndefined)) (y * dot_width d + x) = Some (off d)
    \<and> (\<forall>c \<in> {CString s, CArray [r, g, b], CUndefined}.
          fst (set_dmd d x y c) = Return ()
          \<and> y * dot_width d + x \<in> set (dirtyIndicies (snd (set_dmd d x y c))))
    \<and> 0 \<le> y * dot_width d + x \<and> y * dot_width d + x < dot_width d * dot_height d"
  using flat_index_range [OF assms(1-4)] by simp

text \<open>The example of the specification: \<open>set(1, 1, 'rgb(1,2,3)')\<close> on the 4 by 4 display.\<close>

theorem set_in_bounds_witness:
  "0 \<le> (1::int) \<and> 1 < dot_width display4 \<and> 1 < dot_height display4
   \<and> \<bar>1::int\<bar> \<le> 2 ^ 53 \<and> \<bar>2::int\<bar> \<le> 2 ^ 53 \<and> \<bar>3::int\<bar> \<le> 2 ^ 53
   \<and> data (snd (set_dmd display4 1 1 (CString ''rgb(1,2,3)''))) 5 = Some ''rgb(1,2,3)''
   \<and> data (snd (set_dmd display4 1 1 (CArray [1, 2, 3]))) 5 = Some ''rgb(1,2,3)''
   \<and> 5 \<in> set (dirtyIndicies (snd (set_dmd display4 1 1 (CString ''rgb(1,2,3)''))))"
proof -
  have w: "dot_width display4 = 4" and h: "dot_height display4 = 4"
    by (simp_all add: display4_def)
  have n: "number_to_string 1 = ''1''" "number_to_string 2 = ''2''" "number_to_string 3 = ''3''"
    by (simp_all add: number_to_string_def digits.simps)
  have xy: "(0::int) \<le> 1" "1 < dot_width display4" "1 < dot_height display4"
    by (simp_all add: w h)
  have ch: "\<bar>1::int\<bar> \<le> 2 ^ 53" "\<bar>2::int\<bar> \<le> 2 ^ 53" "\<bar>3::int\<bar> \<le> 2 ^ 53"
    by simp_all
  from set_in_bounds [OF xy(1,2) xy(1,3) ch, of "''rgb(1,2,3)''"] show ?thesis
    unfolding w h n using ch by simp
qed


section \<open>The repaint callback\<close>

lemma updateLed_frame [simp]:
  "dirty (updateLed d i flush) = dirty d"
  "dirtyIndicies (updateLed d i flush) = dirtyIndicies d"
  "data (updateLed d i flush) = data d"
  "data_length (updateLed d i flush) = data_length d"
  by (simp_all add: updateLed_def emit_def Let_def)

lemma fold_updateLed_frame [simp]:
  "dirty (fold (\<lambda>i s. updateLed s i flush) ks d) = dirty d"
  "dirtyIndicies (fold (\<lambda>i s. updateLed s i flush) ks d) = dirtyIndicies d"
  "data (fold (\<lambda>i s. updateLed s i flush) ks d) = data d"
  "data_length (fold (\<lambda>i s. updateLed s i flush) ks d) = data_length d"
  by (induction ks arbitrary: d; simp)+

lemma painter_dirty: "dirty (painter d) = False"
  by (simp add: painter_def emit_def Let_def)

lemma painter_dirtyIndicies:
  "dirtyIndicies (painter d) = (if dirty d then dirtyIndicies d else [])"
  by (simp add: painter_def emit_def Let_def)

text \<open>The callback reads the backing array and never writes it.\<close>

lemma painter_data: "data (painter d) = data d \<and> data_length (painter d) = data_length d"
  by (simp add: painter_def emit_def Let_def)

lemma clear_dirty [simp]:
  "dirty (clear d) = True" "dirtyIndicies (clear d) = dirtyIndicies d"
  "dot_width (clear d) = dot_width d"
  by (simp_all add: clear_eq)

text \<open>
  C1 fails on the code. The branch of \<^verbatim>\<open>painter\<close> taken when the flag \<^verbatim>\<open>dirty\<close> is
  false ends with \<^verbatim>\<open>dirtyIndicies.length = 0\<close>; the branch of the full repaint resets
  the flag and has no such statement, although it has just painted every cell. In a state
  the program reaches, the constructor leaves the flag set, \<open>set(0, 0, 'red')\<close> pushes
  index 0, and the callback returns with the flag false and index 0 still in
  \<^verbatim>\<open>dirtyIndicies\<close>. A next frame that clears, sets cell (1, 0) and runs the callback
  ends with both indices in it: while every frame clears, nothing is ever drained.
\<close>

theorem painter_full_repaint_keeps_indices:
  "DMD canvas4 config1 = Return display4
   \<and> dirty (snd (set_dmd display4 0 0 (CString ''red''))) = True
   \<and> dirtyIndicies (snd (set_dmd display4 0 0 (CString ''red''))) = [0]
   \<and> dirty (painter (snd (set_dmd display4 0 0 (CString ''red'')))) = False
   \<and> dirtyIndicies (painter (snd (set_dmd display4 0 0 (CString ''red'')))) = [0]
   \<and> dirtyIndicies
        (painter (snd (set_dmd (clear (painter (snd (set_dmd display4 0 0 (CString ''red'')))))
                        1 0 (CString ''red'')))) = [0, 1]"
  by (simp add: DMD_display4 painter_dirty painter_dirtyIndicies)

section \<open>What \<^verbatim>\<open>draw\<close> writes and returns\<close>

lemma frame_refl: "frame K d d"
  by (simp add: frame_def)

lemma frame_mono: "frame K d d' \<Longrightarrow> K \<subseteq> K' \<Longrightarrow> frame K' d d'"
  unfolding frame_def by (auto 4 4)

lemma frame_trans:
  assumes "frame K1 d d1" "frame K2 d1 d2"
  shows "frame (K1 \<union> K2) d d2"
proof -
  obtain a1 where a1: "dirtyIndicies d1 = dirtyIndicies d @ a1" "set a1 \<subseteq> K1"
    using assms(1) unfolding frame_def by blast
  obtain a2 where a2: "dirtyIndicies d2 = dirtyIndicies d1 @ a2" "set a2 \<subseteq> K2"
    using assms(2) unfolding frame_def by blast
  have "dirtyIndicies d2 = dirtyIndicies d @ (a1 @ a2) \<and> set (a1 @ a2) \<subseteq> K1 \<union> K2"
    using a1 a2 by auto
  then have dirt: "\<exists>added. dirtyIndicies d2 = dirtyIndicies d @ added \<and> set added \<subseteq> K1 \<union> K2"
    by blast
  have len: "(\<forall>k\<in>K1 \<union> K2. 0 \<le> k \<and> k < data_length d) \<longrightarrow> data_length d2 = data_length d"
    using assms unfolding frame_def by auto
  have rest: "dot_width d2 = dot_width d \<and> dot_height d2 = dot_height d \<and> off d2 = off d
     \<and> dirty d2 = dirty d \<and> surface d2 = surface d
     \<and> (\<forall>k. k \<notin> K1 \<union> K2 \<longrightarrow> data d2 k = data d k)"
    using assms unfolding frame_def by auto
  show ?thesis
    unfolding frame_def using dirt len rest by blast
qed

lemma put_led_frame: "frame {y * dot_width d + x} d (snd (put_led d x y s))"
  by (simp add: frame_def put_led_length)

lemma set_dmd_frame_key: "frame {y * dot_width d + x} d (snd (set_dmd d x y c))"
  by (cases c) (simp_all add: put_led_frame frame_refl)

lemma bit_at_Cons_0:
  "bit_at (r # rs) 0 n = (case r of RowArray bits \<Rightarrow> if n < length bits then Some (bits ! n) else None
                          | RowNumber v \<Rightarrow> None)"
  by (simp add: bit_at_def)

lemma bit_at_Cons_Suc: "bit_at (r # rs) (Suc m) n = bit_at rs m n"
  by (simp add: bit_at_def)

lemma cols_keys_Nil [simp]: "cols_keys W x0 py ff [] = {}"
  by (simp add: cols_keys_def)

lemma cols_keys_Cons:
  "cols_keys W x0 py ff (b # bs) =
     (if 0 \<le> x0 \<and> x0 < W \<and> (b = 1 \<or> ff) then {py * W + x0} else {})
     \<union> cols_keys W (x0 + 1) py ff bs"
proof (rule set_eqI, rule iffI)
  fix k assume "k \<in> cols_keys W x0 py ff (b # bs)"
  then obtain n where n: "k = py * W + (x0 + int n)" "n < length (b # bs)"
      "0 \<le> x0 + int n" "x0 + int n < W" "(b # bs) ! n = 1 \<or> ff"
    unfolding cols_keys_def by blast
  show "k \<in> (if 0 \<le> x0 \<and> x0 < W \<and> (b = 1 \<or> ff) then {py * W + x0} else {})
     \<union> cols_keys W (x0 + 1) py ff bs"
  proof (cases n)
    case 0
    with n show ?thesis by simp
  next
    case (Suc m)
    with n have "k = py * W + (x0 + 1 + int m) \<and> m < length bs \<and> 0 \<le> x0 + 1 + int m
        \<and> x0 + 1 + int m < W \<and> (bs ! m = 1 \<or> ff)"
      by (simp add: algebra_simps)
    then have "k \<in> cols_keys W (x0 + 1) py ff bs"
      unfolding cols_keys_def by blast
    then show ?thesis by simp
  qed
next
  fix k assume k: "k \<in> (if 0 \<le> x0 \<and> x0 < W \<and> (b = 1 \<or> ff) then {py * W + x0} else {})
     \<union> cols_keys W (x0 + 1) py ff bs"
  show "k \<in> cols_keys W x0 py ff (b # bs)"
  proof (cases "k \<in> cols_keys W (x0 + 1) py ff bs")
    case True
    then obtain m where m: "k = py * W + (x0 + 1 + int m)" "m < length bs"
        "0 \<le> x0 + 1 + int m" "x0 + 1 + int m < W" "bs ! m = 1 \<or> ff"
      unfolding cols_keys_def by blast
    then have "k = py * W + (x0 + int (Suc m)) \<and> Suc m < length (b # bs)
        \<and> 0 \<le> x0 + int (Suc m) \<and> x0 + int (Suc m) < W \<and> ((b # bs) ! Suc m = 1 \<or> ff)"
      by (simp add: algebra_simps)
    then show ?thesis unfolding cols_keys_def by blast
  next
    case False
    with k have "k = py * W + (x0 + int 0) \<and> 0 < length (b # bs) \<and> 0 \<le> x0 + int 0
        \<and> x0 + int 0 < W \<and> ((b # bs) ! 0 = 1 \<or> ff)"
      by (auto split: if_splits)
    then show ?thesis unfolding cols_keys_def by blast
  qed
qed


lemma rows_keys_Nil [simp]: "rows_keys W H x y0 ff [] = {}"
  by (simp add: rows_keys_def bit_at_def)

lemma rows_keys_Cons:
  "rows_keys W H x y0 ff (r # rs) =
     (if 0 \<le> y0 \<and> y0 < H
      then (case r of RowArray bits \<Rightarrow> cols_keys W x y0 ff bits | RowNumber v \<Rightarrow> {})
      else {})
     \<union> rows_keys W H x (y0 + 1) ff rs"
  (is "?L = ?A \<union> ?B")
proof (rule set_eqI, rule iffI)
  fix k assume "k \<in> ?L"
  then obtain m n b where mn: "k = (y0 + int m) * W + (x + int n)"
      "0 \<le> y0 + int m" "y0 + int m < H" "0 \<le> x + int n" "x + int n < W"
      "bit_at (r # rs) m n = Some b" "b = 1 \<or> ff"
    unfolding rows_keys_def by blast
  show "k \<in> ?A \<union> ?B"
  proof (cases m)
    case 0
    with mn obtain bits where bits: "r = RowArray bits" "n < length bits" "bits ! n = b"
      by (auto simp: bit_at_Cons_0 split: row.splits if_splits)
    with mn 0 have "k = y0 * W + (x + int n) \<and> n < length bits \<and> 0 \<le> x + int n
        \<and> x + int n < W \<and> (bits ! n = 1 \<or> ff)"
      by simp
    then have "k \<in> cols_keys W x y0 ff bits" unfolding cols_keys_def by blast
    with mn 0 bits show ?thesis by simp
  next
    case (Suc m')
    with mn have "k = (y0 + 1 + int m') * W + (x + int n) \<and> 0 \<le> y0 + 1 + int m'
        \<and> y0 + 1 + int m' < H \<and> 0 \<le> x + int n \<and> x + int n < W
        \<and> bit_at rs m' n = Some b \<and> (b = 1 \<or> ff)"
      by (simp add: bit_at_Cons_Suc algebra_simps)
    then have "k \<in> ?B" unfolding rows_keys_def by blast
    then show ?thesis by simp
  qed
next
  fix k assume k: "k \<in> ?A \<union> ?B"
  show "k \<in> ?L"
  proof (cases "k \<in> ?B")
    case True
    then obtain m n b where mn: "k = (y0 + 1 + int m) * W + (x + int n)"
        "0 \<le> y0 + 1 + int m" "y0 + 1 + int m < H" "0 \<le> x + int n" "x + int n < W"
        "bit_at rs m n = Some b" "b = 1 \<or> ff"
      unfolding rows_keys_def by blast
    then have "k = (y0 + int (Suc m)) * W + (x + int n) \<and> 0 \<le> y0 + int (Suc m)
        \<and> y0 + int (Suc m) < H \<and> 0 \<le> x + int n \<and> x + int n < W
        \<and> bit_at (r # rs) (Suc m) n = Some b \<and> (b = 1 \<or> ff)"
      by (simp add: bit_at_Cons_Suc algebra_simps)
    then show ?thesis unfolding rows_keys_def by blast
  next
    case False
    with k obtain bits where bits: "r = RowArray bits" "0 \<le> y0" "y0 < H"
        "k \<in> cols_keys W x y0 ff bits"
      by (auto split: if_splits row.splits)
    then obtain n where n: "k = y0 * W + (x + int n)" "n < length bits" "0 \<le> x + int n"
        "x + int n < W" "bits ! n = 1 \<or> ff"
      unfolding cols_keys_def by blast
    with bits have "k = (y0 + int 0) * W + (x + int n) \<and> 0 \<le> y0 + int 0
        \<and> y0 + int 0 < H \<and> 0 \<le> x + int n \<and> x + int n < W
        \<and> bit_at (r # rs) 0 n = Some (bits ! n) \<and> (bits ! n = 1 \<or> ff)"
      by (simp add: bit_at_Cons_0)
    then show ?thesis unfolding rows_keys_def by blast
  qed
qed

lemma draw_cols_spec:
  "frame (cols_keys (dot_width d) (x + j) py ff bs) d (snd (draw_cols x py c ff bs j hp d))
   \<and> (\<forall>r. fst (draw_cols x py c ff bs j hp d) = Return r
         \<longrightarrow> r = (hp \<or> cols_keys (dot_width d) (x + j) py ff bs \<noteq> {}))
   \<and> (c \<noteq> CNull \<or> cols_keys (dot_width d) (x + j) py ff bs = {}
        \<longrightarrow> (\<exists>r. fst (draw_cols x py c ff bs j hp d) = Return r))"
proof (induction bs arbitrary: j hp d)
  case Nil
  show ?case by (simp add: frame_refl)
next
  case (Cons b bs)
  let ?W = "dot_width d"
  let ?col = "if b = 1 then c else CUndefined"
  let ?rest = "cols_keys ?W (x + (j + 1)) py ff bs"
  have assoc: "x + j + 1 = x + (j + 1)" by simp
  show ?case
  proof (cases "0 \<le> x + j \<and> x + j < ?W \<and> (b = 1 \<or> ff)")
    case False
    then have eq: "draw_cols x py c ff (b # bs) j hp d = draw_cols x py c ff bs (j + 1) hp d"
      by (auto simp: Let_def)
    have keys: "cols_keys ?W (x + j) py ff (b # bs) = ?rest"
      using False by (auto simp: cols_keys_Cons assoc)
    show ?thesis unfolding eq keys by (rule Cons.IH)
  next
    case True
    obtain r d' where s: "set_dmd d (x + j) py ?col = (r, d')" by (cases "set_dmd d (x + j) py ?col")
    have f1: "frame {py * ?W + (x + j)} d d'"
      using set_dmd_frame_key [of py d "x + j" ?col] s by simp
    then have W': "dot_width d' = ?W" by (simp add: frame_def)
    have keys: "cols_keys ?W (x + j) py ff (b # bs) = {py * ?W + (x + j)} \<union> ?rest"
      using True by (simp add: cols_keys_Cons assoc)
    show ?thesis
    proof (cases r)
      case (Throw e)
      then have eq: "draw_cols x py c ff (b # bs) j hp d = (Throw e, d')"
        using True s by (simp add: Let_def)
      have "c = CNull"
      proof (rule ccontr)
        assume "c \<noteq> CNull"
        then have "?col \<noteq> CNull" by simp
        then have "fst (set_dmd d (x + j) py ?col) = Return ()" by (rule set_dmd_returns)
        with s Throw show False by simp
      qed
      moreover have "frame (cols_keys ?W (x + j) py ff (b # bs)) d d'"
        unfolding keys by (rule frame_mono [OF f1]) simp
      moreover have "cols_keys ?W (x + j) py ff (b # bs) \<noteq> {}"
        unfolding keys by simp
      ultimately show ?thesis unfolding eq by simp
    next
      case (Return u)
      then have eq: "draw_cols x py c ff (b # bs) j hp d = draw_cols x py c ff bs (j + 1) True d'"
        using True s by (simp add: Let_def)
      note IH = Cons.IH [of d' "j + 1" True, unfolded W']
      have "frame (cols_keys ?W (x + j) py ff (b # bs)) d
              (snd (draw_cols x py c ff bs (j + 1) True d'))"
        unfolding keys using frame_trans [OF f1] IH by blast
      moreover have "cols_keys ?W (x + j) py ff (b # bs) \<noteq> {}"
        unfolding keys by simp
      ultimately show ?thesis unfolding eq using IH by auto
    qed
  qed
qed


lemma draw_rows_spec:
  "frame (rows_keys (dot_width d) (dot_height d) x (y + i) ff rs) d
     (snd (draw_rows x y c ff rs i hp d))
   \<and> (\<forall>r. fst (draw_rows x y c ff rs i hp d) = Return r
         \<longrightarrow> r = (hp \<or> rows_keys (dot_width d) (dot_height d) x (y + i) ff rs \<noteq> {}))
   \<and> (c \<noteq> CNull \<or> rows_keys (dot_width d) (dot_height d) x (y + i) ff rs = {}
        \<longrightarrow> (\<exists>r. fst (draw_rows x y c ff rs i hp d) = Return r))"
proof (induction rs arbitrary: i hp d)
  case Nil
  show ?case by (simp add: frame_refl)
next
  case (Cons row rs)
  let ?W = "dot_width d" and ?H = "dot_height d"
  let ?rest = "rows_keys ?W ?H x (y + (i + 1)) ff rs"
  have assoc: "y + i + 1 = y + (i + 1)" by simp
  show ?case
  proof (cases "0 \<le> y + i \<and> y + i < ?H \<and> (\<exists>bits. row = RowArray bits)")
    case False
    then have eq: "draw_rows x y c ff (row # rs) i hp d = draw_rows x y c ff rs (i + 1) hp d"
      by (cases row) (auto simp: Let_def)
    have keys: "rows_keys ?W ?H x (y + i) ff (row # rs) = ?rest"
      using False by (cases row) (auto simp: rows_keys_Cons assoc)
    show ?thesis unfolding eq keys by (rule Cons.IH)
  next
    case True
    then obtain bits where row: "row = RowArray bits" by blast
    let ?cols = "cols_keys ?W x (y + i) ff bits"
    obtain r d' where s: "draw_cols x (y + i) c ff bits 0 hp d = (r, d')"
      by (cases "draw_cols x (y + i) c ff bits 0 hp d")
    note cs = draw_cols_spec [of d x 0 "y + i" ff bits c hp, unfolded s, simplified]
    have f1: "frame ?cols d d'" using cs by simp
    then have W': "dot_width d' = ?W" and H': "dot_height d' = ?H" by (simp_all add: frame_def)
    have keys: "rows_keys ?W ?H x (y + i) ff (row # rs) = ?cols \<union> ?rest"
      using True row by (simp add: rows_keys_Cons assoc)
    show ?thesis
    proof (cases r)
      case (Throw e)
      then have eq: "draw_rows x y c ff (row # rs) i hp d = (Throw e, d')"
        using True row s by (simp add: Let_def)
      have "c = CNull \<and> ?cols \<noteq> {}" using cs Throw by auto
      moreover have "frame (rows_keys ?W ?H x (y + i) ff (row # rs)) d d'"
        unfolding keys by (rule frame_mono [OF f1]) simp
      ultimately show ?thesis unfolding eq keys by simp
    next
      case (Return hp')
      then have eq: "draw_rows x y c ff (row # rs) i hp d = draw_rows x y c ff rs (i + 1) hp' d'"
        using True row s by (simp add: Let_def)
      have hp': "hp' = (hp \<or> ?cols \<noteq> {})" using cs Return by simp
      note IH = Cons.IH [of d' "i + 1" hp', unfolded W' H']
      have "frame (rows_keys ?W ?H x (y + i) ff (row # rs)) d
              (snd (draw_rows x y c ff rs (i + 1) hp' d'))"
        unfolding keys using frame_trans [OF f1] IH by blast
      then show ?thesis unfolding eq keys using IH hp' by auto
    qed
  qed
qed

lemma draw_spec:
  "frame (rows_keys (dot_width d) (dot_height d) x y (fill options) shape) d
     (snd (draw d x y shape options))
   \<and> (\<forall>r. fst (draw d x y shape options) = Return r
         \<longrightarrow> r = (rows_keys (dot_width d) (dot_height d) x y (fill options) shape \<noteq> {}))
   \<and> (color options \<noteq> CNull \<or> rows_keys (dot_width d) (dot_height d) x y (fill options) shape = {}
        \<longrightarrow> (\<exists>r. fst (draw d x y shape options) = Return r))"
  using draw_rows_spec [of d x y 0 "fill options" shape "color options" False]
  by (simp add: draw_def)

lemma rows_keys_iff:
  "k \<in> rows_keys W H x y ff shape \<longleftrightarrow>
     (\<exists>i j b. bit_at shape i j = Some b \<and> (b = 1 \<or> ff)
        \<and> 0 \<le> y + int i \<and> y + int i < H \<and> 0 \<le> x + int j \<and> x + int j < W
        \<and> k = (y + int i) * W + (x + int j))"
  unfolding rows_keys_def by blast

lemma rows_keys_empty_iff:
  "rows_keys W H x y ff shape = {} \<longleftrightarrow>
     \<not> (\<exists>i j b. bit_at shape i j = Some b \<and> (b = 1 \<or> ff)
        \<and> 0 \<le> y + int i \<and> y + int i < H \<and> 0 \<le> x + int j \<and> x + int j < W)"
  unfolding rows_keys_def by blast


lemma bit_at_Some_iff:
  "bit_at shape i j = Some b \<longleftrightarrow>
     i < length shape \<and> (\<exists>bits. shape ! i = RowArray bits \<and> j < length bits \<and> b = bits ! j)"
  by (auto simp: bit_at_def split: row.splits)

lemma frame_dirty_drop:
  assumes "frame K d d'"
  shows "take (length (dirtyIndicies d)) (dirtyIndicies d') = dirtyIndicies d"
    and "set (drop (length (dirtyIndicies d)) (dirtyIndicies d')) \<subseteq> K"
  using assms unfolding frame_def by auto

text \<open>
  C4, as the code has it. When \<^verbatim>\<open>draw\<close> returns, its boolean is true if and only if
  it called \<^verbatim>\<open>set\<close> at least once: some bit of the shape falls on a cell inside the grid
  and is lit (1) or, with \<open>fill\<close> true, has any value. So with \<open>fill\<close> false it is true
  exactly when a lit bit falls inside the grid. \<^verbatim>\<open>draw\<close> returns whenever the colour is
  not \<^verbatim>\<open>null\<close>. It returns false for the empty shape, for a shape that lies outside the
  grid, and, with \<open>fill\<close> false, for a shape without a lit bit.
\<close>

theorem draw_returns:
  "(fst (draw d x y shape options) = Return r \<longrightarrow>
      r = (\<exists>i j b. bit_at shape i j = Some b \<and> (b = 1 \<or> fill options)
             \<and> 0 \<le> y + int i \<and> y + int i < dot_height d
             \<and> 0 \<le> x + int j \<and> x + int j < dot_width d))
   \<and> (color options \<noteq> CNull \<longrightarrow> (\<exists>r. fst (draw d x y shape options) = Return r))
   \<and> (shape = [] \<longrightarrow> fst (draw d x y shape options) = Return False)
   \<and> ((\<forall>i j. bit_at shape i j \<noteq> None \<longrightarrow>
          \<not> (0 \<le> y + int i \<and> y + int i < dot_height d
             \<and> 0 \<le> x + int j \<and> x + int j < dot_width d))
        \<longrightarrow> fst (draw d x y shape options) = Return False)
   \<and> (\<not> fill options \<and> (\<forall>i j. bit_at shape i j \<noteq> Some 1)
        \<longrightarrow> fst (draw d x y shape options) = Return False)"
proof -
  let ?K = "rows_keys (dot_width d) (dot_height d) x y (fill options) shape"
  note sp = draw_spec [of d x y options shape]
  have ret: "fst (draw d x y shape options) = Return r \<longrightarrow> r = (?K \<noteq> {})"
    using sp by blast
  have none: "?K = {} \<Longrightarrow> fst (draw d x y shape options) = Return False"
    using sp by auto
  have a: "fst (draw d x y shape options) = Return r \<longrightarrow>
      r = (\<exists>i j b. bit_at shape i j = Some b \<and> (b = 1 \<or> fill options)
             \<and> 0 \<le> y + int i \<and> y + int i < dot_height d
             \<and> 0 \<le> x + int j \<and> x + int j < dot_width d)"
    using ret unfolding rows_keys_empty_iff by blast
  have b: "color options \<noteq> CNull \<longrightarrow> (\<exists>r. fst (draw d x y shape options) = Return r)"
    using sp by blast
  have c: "shape = [] \<longrightarrow> fst (draw d x y shape options) = Return False"
    by (simp add: draw_def)
  have d: "(\<forall>i j. bit_at shape i j \<noteq> None \<longrightarrow>
          \<not> (0 \<le> y + int i \<and> y + int i < dot_height d
             \<and> 0 \<le> x + int j \<and> x + int j < dot_width d))
        \<longrightarrow> fst (draw d x y shape options) = Return False"
  proof
    assume oob: "\<forall>i j. bit_at shape i j \<noteq> None \<longrightarrow>
          \<not> (0 \<le> y + int i \<and> y + int i < dot_height d
             \<and> 0 \<le> x + int j \<and> x + int j < dot_width d)"
    have "?K = {}" unfolding rows_keys_empty_iff using oob by fastforce
    then show "fst (draw d x y shape options) = Return False" by (rule none)
  qed
  have e: "\<not> fill options \<and> (\<forall>i j. bit_at shape i j \<noteq> Some 1)
        \<longrightarrow> fst (draw d x y shape options) = Return False"
  proof
    assume unlit: "\<not> fill options \<and> (\<forall>i j. bit_at shape i j \<noteq> Some 1)"
    have "?K = {}" unfolding rows_keys_empty_iff using unlit by auto
    then show "fst (draw d x y shape options) = Return False" by (rule none)
  qed
  show ?thesis using a b c d e by blast
qed

text \<open>
  The glyph A at the origin is visible; the empty shape, the glyph nine columns to the
  right of a grid four wide, and a shape of bits 0 and 2 are not.
\<close>

theorem draw_returns_witness:
  "fst (draw display4 0 0 shape_A white) = Return True
   \<and> color white \<noteq> CNull
   \<and> bit_at shape_A 0 1 = Some 1
   \<and> fst (draw display4 0 0 [] white) = Return False
   \<and> \<not> fill white
   \<and> fst (draw display4 9 0 shape_A white) = Return False
   \<and> fst (draw display4 0 0 [RowArray [0, 0], RowArray [2]] white) = Return False"
proof -
  have col: "color white \<noteq> CNull" and nofill: "\<not> fill white"
    by (simp_all add: white_def)
  have bit: "bit_at shape_A 0 1 = Some 1"
    by (simp add: shape_A_def bit_at_def)
  note t = draw_returns [of display4 0 0 shape_A white]
  from t [THEN conjunct2, THEN conjunct1] col
  obtain r where r: "fst (draw display4 0 0 shape_A white) = Return r" by blast
  have ex: "\<exists>i j b. bit_at shape_A i j = Some b \<and> (b = 1 \<or> fill white)
      \<and> 0 \<le> 0 + int i \<and> 0 + int i < dot_height display4
      \<and> 0 \<le> 0 + int j \<and> 0 + int j < dot_width display4"
    using bit by (intro exI [of _ 0] exI [of _ 1] exI [of _ "1::int"]) simp
  have "r = True"
    using t [of r, THEN conjunct1] r ex by simp
  with r have lit: "fst (draw display4 0 0 shape_A white) = Return True" by simp
  have empty: "fst (draw display4 0 0 [] white) = Return False"
    using draw_returns [of display4 0 0 "[]" white, THEN conjunct2, THEN conjunct2, THEN conjunct1]
    by simp
  have "\<forall>i j. bit_at shape_A i j \<noteq> None \<longrightarrow>
          \<not> (0 \<le> 0 + int i \<and> 0 + int i < dot_height display4
             \<and> 0 \<le> 9 + int j \<and> 9 + int j < dot_width display4)"
    by simp
  then have oob: "fst (draw display4 9 0 shape_A white) = Return False"
    by (rule draw_returns [of display4 9 0 shape_A white, THEN conjunct2, THEN conjunct2,
          THEN conjunct2, THEN conjunct1, THEN mp])
  have "\<And>i j. bit_at [RowArray [0, 0], RowArray [2]] i j \<noteq> Some 1"
  proof -
    fix i j
    show "bit_at [RowArray [0, 0], RowArray [2]] i j \<noteq> Some 1"
      by (cases i; cases j) (auto simp: bit_at_def nth_Cons' split: if_splits)
  qed
  with nofill have "\<not> fill white \<and> (\<forall>i j. bit_at [RowArray [0, 0], RowArray [2]] i j \<noteq> Some 1)"
    by simp
  then have unlit: "fst (draw display4 0 0 [RowArray [0, 0], RowArray [2]] white) = Return False"
    by (rule draw_returns [of display4 0 0 "[RowArray [0, 0], RowArray [2]]" white,
          THEN conjunct2, THEN conjunct2, THEN conjunct2, THEN conjunct2, THEN mp])
  show ?thesis using lit col bit empty nofill oob unlit by simp
qed

text \<open>
  The claim as the specification words it fails with \<open>fill\<close> true: the only bit of the
  shape \<open>[[0]]\<close> is unlit, \<^verbatim>\<open>draw\<close> paints the cell with the off colour and returns true.
\<close>

theorem draw_fill_unlit_counterexample:
  "fst (draw display4 0 0 [RowArray [0]] \<lparr>color = CString ''white'', fill = True\<rparr>) = Return True
   \<and> bit_at [RowArray [0]] 0 0 = Some 0
   \<and> data (snd (draw display4 0 0 [RowArray [0]] \<lparr>color = CString ''white'', fill = True\<rparr>)) 0
        = Some ''rgb(50,50,50)''"
  by (simp add: draw_def bit_at_def Let_def put_led_def)

text \<open>
  C8. With \<open>fill\<close> false, a cell of the grid under a bit of the shape that is not 1
  keeps its stored colour, what was in \<^verbatim>\<open>dirtyIndicies\<close> before the call is still its
  beginning, and the index of the cell is not among the indices the call added.
\<close>

theorem draw_keeps_unlit:
  assumes "\<not> fill options" and "bit_at shape i j = Some b" and "b \<noteq> 1"
    and "0 \<le> y + int i" "y + int i < dot_height d"
    and "0 \<le> x + int j" "x + int j < dot_width d"
  shows "data (snd (draw d x y shape options)) ((y + int i) * dot_width d + (x + int j))
           = data d ((y + int i) * dot_width d + (x + int j))
    \<and> take (length (dirtyIndicies d)) (dirtyIndicies (snd (draw d x y shape options)))
           = dirtyIndicies d
    \<and> (y + int i) * dot_width d + (x + int j)
         \<notin> set (drop (length (dirtyIndicies d)) (dirtyIndicies (snd (draw d x y shape options))))"
proof -
  let ?W = "dot_width d"
  let ?K = "rows_keys ?W (dot_height d) x y (fill options) shape"
  let ?k = "(y + int i) * ?W + (x + int j)"
  have fr: "frame ?K d (snd (draw d x y shape options))"
    using draw_spec [of d x y options shape] by blast
  have notin: "?k \<notin> ?K"
  proof
    assume "?k \<in> ?K"
    then obtain i' j' b' where w: "bit_at shape i' j' = Some b'" "b' = 1 \<or> fill options"
        "0 \<le> x + int j'" "x + int j' < ?W" "?k = (y + int i') * ?W + (x + int j')"
      unfolding rows_keys_iff by blast
    have "y + int i = y + int i' \<and> x + int j = x + int j'"
      using flat_index_inj [OF assms(6,7) w(3,4) w(5)] .
    then have "i' = i" "j' = j" by simp_all
    with w assms show False by simp
  qed
  have "data (snd (draw d x y shape options)) ?k = data d ?k"
    using fr notin unfolding frame_def by blast
  moreover note frame_dirty_drop [OF fr]
  ultimately show ?thesis using notin by blast
qed

text \<open>The top left bit of the glyph A is 0: cell 0 keeps the off colour and stays clean.\<close>

theorem draw_keeps_unlit_witness:
  "\<not> fill white \<and> bit_at shape_A 0 0 = Some 0
   \<and> data (snd (draw display4 0 0 shape_A white)) 0 = Some ''rgb(50,50,50)''
   \<and> 0 \<notin> set (dirtyIndicies (snd (draw display4 0 0 shape_A white)))"
proof -
  have nofill: "\<not> fill white" by (simp add: white_def)
  have bit: "bit_at shape_A 0 0 = Some 0" by (simp add: shape_A_def bit_at_def)
  have "(0::int) \<noteq> 1" "(0::int) \<le> 0 + int 0" "0 + int 0 < dot_height display4"
       "0 + int 0 < dot_width display4"
    by simp_all
  from draw_keeps_unlit [OF nofill bit this(1,2,3,2,4)] show ?thesis
    using nofill bit by simp
qed

text \<open>
  C10. A key of the backing array whose value \<^verbatim>\<open>draw\<close> changes, or an index that it
  adds to \<^verbatim>\<open>dirtyIndicies\<close>, is the flat index of a cell inside the grid that lies under
  the footprint of the shape (row \<open>y + i\<close> for a row \<open>i\<close> of the shape that is an array,
  column \<open>x + j\<close> for \<open>j\<close> below the length of that row), for any \<open>x\<close> and \<open>y\<close>, negative
  ones too; so it lies in \<open>[0, dot_width * dot_height)\<close>, and the backing array keeps its
  length.
\<close>

theorem draw_writes_in_bounds:
  "(data (snd (draw d x y shape options)) k \<noteq> data d k
     \<or> k \<in> set (drop (length (dirtyIndicies d)) (dirtyIndicies (snd (draw d x y shape options))))
    \<longrightarrow> (\<exists>i j. i < length shape
           \<and> (\<exists>bits. shape ! i = RowArray bits \<and> j < length bits)
           \<and> 0 \<le> y + int i \<and> y + int i < dot_height d
           \<and> 0 \<le> x + int j \<and> x + int j < dot_width d
           \<and> k = (y + int i) * dot_width d + (x + int j))
        \<and> 0 \<le> k \<and> k < dot_width d * dot_height d)
   \<and> take (length (dirtyIndicies d)) (dirtyIndicies (snd (draw d x y shape options)))
        = dirtyIndicies d
   \<and> (dot_width d * dot_height d \<le> data_length d
        \<longrightarrow> data_length (snd (draw d x y shape options)) = data_length d)"
proof -
  let ?W = "dot_width d" and ?H = "dot_height d"
  let ?K = "rows_keys ?W ?H x y (fill options) shape"
  let ?d' = "snd (draw d x y shape options)"
  have fr: "frame ?K d ?d'"
    using draw_spec [of d x y options shape] by blast
  have inK: "\<And>k. k \<in> ?K \<Longrightarrow>
      (\<exists>i j. i < length shape \<and> (\<exists>bits. shape ! i = RowArray bits \<and> j < length bits)
           \<and> 0 \<le> y + int i \<and> y + int i < ?H \<and> 0 \<le> x + int j \<and> x + int j < ?W
           \<and> k = (y + int i) * ?W + (x + int j))
      \<and> 0 \<le> k \<and> k < ?W * ?H"
  proof -
    fix k assume "k \<in> ?K"
    then obtain i j b where w: "bit_at shape i j = Some b"
        "0 \<le> y + int i" "y + int i < ?H" "0 \<le> x + int j" "x + int j < ?W"
        "k = (y + int i) * ?W + (x + int j)"
      unfolding rows_keys_iff by blast
    from w(1) have "i < length shape \<and> (\<exists>bits. shape ! i = RowArray bits \<and> j < length bits)"
      unfolding bit_at_Some_iff by blast
    moreover have "0 \<le> k \<and> k < ?W * ?H"
      unfolding w(6) using flat_index_range [OF w(4,5) w(2,3)] .
    ultimately show "(\<exists>i j. i < length shape \<and> (\<exists>bits. shape ! i = RowArray bits \<and> j < length bits)
           \<and> 0 \<le> y + int i \<and> y + int i < ?H \<and> 0 \<le> x + int j \<and> x + int j < ?W
           \<and> k = (y + int i) * ?W + (x + int j))
      \<and> 0 \<le> k \<and> k < ?W * ?H"
      using w by blast
  qed
  have changed: "data ?d' k \<noteq> data d k \<Longrightarrow> k \<in> ?K"
    using fr unfolding frame_def by blast
  have pushed: "k \<in> set (drop (length (dirtyIndicies d)) (dirtyIndicies ?d')) \<Longrightarrow> k \<in> ?K"
    using frame_dirty_drop(2) [OF fr] by blast
  have len: "?W * ?H \<le> data_length d \<longrightarrow> data_length ?d' = data_length d"
  proof
    assume le: "?W * ?H \<le> data_length d"
    have "\<forall>k\<in>?K. 0 \<le> k \<and> k < data_length d"
      using inK le by fastforce
    then show "data_length ?d' = data_length d"
      using fr unfolding frame_def by blast
  qed
  show ?thesis
    using inK changed pushed len frame_dirty_drop(1) [OF fr] by blast
qed

text \<open>
  The glyph A drawn at \<open>(-1, 3)\<close>: of its footprint only the cells 12 and 13 are inside
  the grid, and cell 12 is written.
\<close>

theorem draw_writes_in_bounds_witness:
  "data (snd (draw display4 (- 1) 3 shape_A white)) 12 \<noteq> data display4 12
   \<and> (0::int) \<le> 12 \<and> 12 < dot_width display4 * dot_height display4
   \<and> dot_width display4 * dot_height display4 \<le> data_length display4
   \<and> data_length (snd (draw display4 (- 1) 3 shape_A white)) = data_length display4"
proof -
  have ch: "data (snd (draw display4 (- 1) 3 shape_A white)) 12 \<noteq> data display4 12"
    by (simp add: draw_def shape_A_def white_def Let_def put_led_def)
  have le: "dot_width display4 * dot_height display4 \<le> data_length display4" by simp
  show ?thesis
    using draw_writes_in_bounds [of display4 "- 1" 3 shape_A white 12] ch le by simp
qed

section \<open>What \<^verbatim>\<open>rect\<close> paints\<close>








section \<open>The text printer\<close>

lemma fold_row_max:
  "0 \<le> w0 \<Longrightarrow>
   fold (\<lambda>r w. case r of RowArray bits \<Rightarrow> max w (int (length bits)) | RowNumber n \<Rightarrow> w) rs w0
     = Max (insert w0 (row_length ` set rs))"
proof (induction rs arbitrary: w0)
  case Nil
  then show ?case by simp
next
  case (Cons r rs)
  have step: "(case r of RowArray bits \<Rightarrow> max w0 (int (length bits)) | RowNumber n \<Rightarrow> w0)
      = max w0 (row_length r)"
    using Cons.prems by (cases r) simp_all
  have "Max (insert (max w0 (row_length r)) (row_length ` set rs))
      = Max (insert w0 (row_length ` set (r # rs)))"
    by (cases "set rs = {}") (simp_all add: max.assoc max.left_commute)
  then show ?case
    using Cons.IH [of "max w0 (row_length r)"] Cons.prems by (simp add: step)
qed

lemma updateFontData_width:
  "updateFontData g = g\<lparr>width := Some (Max (insert 0 (row_length ` set (rows g))))\<rparr>"
  by (simp add: updateFontData_def fold_row_max)

lemma cache_width_eq: "cache_width g = g\<lparr>width := Some (advance_width g)\<rparr>"
  by (cases "width g") (auto simp: cache_width_def no_width_def advance_width_def updateFontData_width)

lemma width_value_cache: "width_value (cache_width g) = advance_width g"
  by (simp add: cache_width_eq width_value_def)

lemma rows_cache [simp]: "rows (cache_width g) = rows g"
  by (simp add: cache_width_eq)

text \<open>A font without a \<^verbatim>\<open>length\<close> leaves every glyph as \<^verbatim>\<open>updateFont\<close> found it.\<close>

lemma updateFont_no_length: "font_length f = None \<Longrightarrow> updateFont f h = (Return (), h)"
  by (simp add: updateFont_def updateFont_loop.simps)

text \<open>
  C3 fails on the code. \<^verbatim>\<open>updateFont\<close> counts up to \<^verbatim>\<open>font.length\<close> and reads the
  properties named by numbers, while \<^verbatim>\<open>print\<close> looks a glyph up under its character.
  The font \<^verbatim>\<open>{'A': [[0,1,0],[1,1,1]]}\<close> has no \<^verbatim>\<open>length\<close>: \<^verbatim>\<open>updateFont\<close> returns
  with every glyph as it was, and the glyph of A still has no cached width.
\<close>

theorem updateFont_char_keyed_font:
  "updateFont font_A heap_A = (Return (), heap_A)
   \<and> glyphs font_A ''A'' = Some 0 \<and> heap_A 0 = glyph_A \<and> width glyph_A = None
   \<and> width (snd (updateFont font_A heap_A) 0) = None"
proof -
  have "font_length font_A = None" by (simp add: font_A_def)
  then have "updateFont font_A heap_A = (Return (), heap_A)" by (rule updateFont_no_length)
  then show ?thesis by (simp add: font_A_def heap_A_def glyph_A_def)
qed

lemma print_loop_printed:
  "print_loop d f h y opts cs cx p =
     (case print_loop d f h y opts cs cx 0 of
        (Return b, rest) \<Rightarrow> (Return (0 < p \<or> b), rest)
      | (Throw e, rest) \<Rightarrow> (Throw e, rest))"
proof (induction cs arbitrary: d h cx p)
  case Nil
  show ?case by simp
next
  case (Cons c cs)
  show ?case
  proof (cases "cx \<le> dot_width d")
    case False
    then show ?thesis by simp
  next
    case True
    show ?thesis
    proof (cases "glyphs f [c]")
      case None
      then show ?thesis using True Cons.IH [of d h cx p] by simp
    next
      case (Some r)
      let ?h1 = "h(r := cache_width (h r))"
      let ?cx = "cx + (advance_width (h r) + 1)"
      obtain res d1 where dr: "draw d cx y (rows (h r)) opts = (res, d1)"
        by (cases "draw d cx y (rows (h r)) opts")
      show ?thesis
      proof (cases res)
        case (Throw e)
        then show ?thesis using True Some dr by (simp add: Let_def width_value_cache)
      next
        case (Return v)
        have L: "print_loop d f h y opts (c # cs) cx p
            = print_loop d1 f ?h1 y opts cs ?cx (if v then p + 1 else p)"
          using True Some dr Return by (simp add: Let_def width_value_cache)
        have R: "print_loop d f h y opts (c # cs) cx 0
            = print_loop d1 f ?h1 y opts cs ?cx (if v then 0 + 1 else 0)"
          using True Some dr Return by (simp add: Let_def width_value_cache)
        have IHp: "print_loop d1 f ?h1 y opts cs ?cx (if v then p + 1 else p)
            = (case print_loop d1 f ?h1 y opts cs ?cx 0 of
                 (Return b, rest) \<Rightarrow> (Return (0 < (if v then p + 1 else p) \<or> b), rest)
               | (Throw e, rest) \<Rightarrow> (Throw e, rest))"
          by (rule Cons.IH)
        have IH0: "print_loop d1 f ?h1 y opts cs ?cx (if v then 0 + 1 else 0)
            = (case print_loop d1 f ?h1 y opts cs ?cx 0 of
                 (Return b, rest) \<Rightarrow> (Return (0 < (if v then 0 + 1 else (0::nat)) \<or> b), rest)
               | (Throw e, rest) \<Rightarrow> (Throw e, rest))"
          by (rule Cons.IH)
        show ?thesis unfolding L R
          by (subst IHp, subst IH0)
             (cases "print_loop d1 f ?h1 y opts cs ?cx 0"; cases v; simp split: completion.splits)
      qed
    qed
  qed
qed

lemma print_loop_draws:
  "fst (print_loop d f h y opts cs cx p) = Return b \<Longrightarrow>
   b = (0 < p \<or> Return True \<in> set (print_draws d f h y opts cs cx))"
proof (induction cs arbitrary: d h cx p)
  case Nil
  then show ?case by simp
next
  case (Cons c cs)
  show ?case
  proof (cases "cx \<le> dot_width d")
    case False
    then show ?thesis using Cons.prems by simp
  next
    case True
    show ?thesis
    proof (cases "glyphs f [c]")
      case None
      then show ?thesis using True Cons.IH [of d h cx p] Cons.prems by simp
    next
      case (Some r)
      let ?h1 = "h(r := cache_width (h r))"
      let ?cx = "cx + (advance_width (h r) + 1)"
      obtain res d1 where dr: "draw d cx y (rows (h r)) opts = (res, d1)"
        by (cases "draw d cx y (rows (h r)) opts")
      show ?thesis
      proof (cases res)
        case (Throw e)
        then show ?thesis using True Some dr Cons.prems by (simp add: Let_def)
      next
        case (Return v)
        have L: "print_loop d f h y opts (c # cs) cx p
            = print_loop d1 f ?h1 y opts cs ?cx (if v then p + 1 else p)"
          using True Some dr Return by (simp add: Let_def width_value_cache)
        have D: "print_draws d f h y opts (c # cs) cx
            = Return v # print_draws d1 f ?h1 y opts cs ?cx"
          using True Some dr Return by (simp add: Let_def width_value_cache)
        have "fst (print_loop d1 f ?h1 y opts cs ?cx (if v then p + 1 else p)) = Return b"
          using Cons.prems unfolding L .
        then have "b = (0 < (if v then p + 1 else p)
              \<or> Return True \<in> set (print_draws d1 f ?h1 y opts cs ?cx))"
          by (rule Cons.IH)
        then show ?thesis unfolding D by (cases v) auto
      qed
    qed
  qed
qed

lemma print_loop_no_glyphs:
  "glyphs f = Map.empty \<Longrightarrow> print_loop d f h y opts cs cx p = (Return (0 < p), d, h)"
  by (induction cs) simp_all

lemma print_loop_past_width:
  "dot_width d < cx \<Longrightarrow> print_loop d f h y opts cs cx p = (Return (0 < p), d, h)"
  by (cases cs) simp_all

lemma print_draws_past_width: "dot_width d < cx \<Longrightarrow> print_draws d f h y opts cs cx = []"
  by (cases cs) simp_all

lemma print_loop_returns:
  "color opts \<noteq> CNull \<Longrightarrow> \<exists>b. fst (print_loop d f h y opts cs cx p) = Return b"
proof (induction cs arbitrary: d h cx p)
  case Nil
  show ?case by simp
next
  case (Cons c cs)
  show ?case
  proof (cases "cx \<le> dot_width d")
    case False
    then show ?thesis by simp
  next
    case True
    show ?thesis
    proof (cases "glyphs f [c]")
      case None
      then show ?thesis using True Cons.IH [OF Cons.prems, of d h cx p] by simp
    next
      case (Some r)
      let ?h1 = "h(r := cache_width (h r))"
      let ?cx = "cx + (advance_width (h r) + 1)"
      obtain v where "fst (draw d cx y (rows (h r)) opts) = Return v"
        using draw_spec [of d cx y opts "rows (h r)"] Cons.prems by blast
      then obtain d1 where dr: "draw d cx y (rows (h r)) opts = (Return v, d1)"
        by (cases "draw d cx y (rows (h r)) opts") simp
      have L: "print_loop d f h y opts (c # cs) cx p
          = print_loop d1 f ?h1 y opts cs ?cx (if v then p + 1 else p)"
        using True Some dr by (simp add: Let_def width_value_cache)
      show ?thesis unfolding L by (rule Cons.IH [OF Cons.prems])
    qed
  qed
qed

text \<open>
  C7, as the code has it. A character whose glyph is absent from the font is skipped and
  the rest of the text is printed from the same column. A character whose glyph is
  present and which is reached at a column that is at most \<^verbatim>\<open>dot_width\<close>, with a call
  of \<^verbatim>\<open>draw\<close> that returns \<open>v\<close>, has the width of its glyph cached on the glyph object
  and the rest of the text printed from the column \<open>x\<close> plus that width plus one, the same
  for \<open>v\<close> true and \<open>v\<close> false; \<open>v\<close> is or-ed to the result. The width plus one and
  the new column are of magnitude at most \<open>2^53\<close>, where the code adds exactly. At a column beyond
  \<^verbatim>\<open>dot_width\<close> the loop stops: \<^verbatim>\<open>print\<close> returns false and nothing is drawn, cached
  or advanced. When \<^verbatim>\<open>print\<close> returns, its boolean is true if and only if one of its
  calls of \<^verbatim>\<open>draw\<close> returned true, and it returns whenever the colour is not
  \<^verbatim>\<open>null\<close>. With a font without glyphs it returns false and leaves the display, every
  cell of it, as it was.
\<close>

theorem print_skips_and_advances:
  "(glyphs (font options) [c] = None
      \<longrightarrow> print d h x y (c # cs) options = print d h x y cs options)
   \<and> (glyphs (font options) [c] = Some r \<and> x \<le> dot_width d
        \<and> \<bar>advance_width (h r) + 1\<bar> \<le> 2 ^ 53 \<and> \<bar>x + (advance_width (h r) + 1)\<bar> \<le> 2 ^ 53
        \<and> draw d x y (rows (h r)) \<lparr>color = color options, fill = fill options\<rparr> = (Return v, d1)
      \<longrightarrow> print d h x y (c # cs) options =
           (case print d1 (h(r := (h r)\<lparr>width := Some (advance_width (h r))\<rparr>))
                   (x + (advance_width (h r) + 1)) y cs options of
              (Return b, rest) \<Rightarrow> (Return (v \<or> b), rest)
            | (Throw e, rest) \<Rightarrow> (Throw e, rest)))
   \<and> (dot_width d < x \<longrightarrow> print d h x y txt options = (Return False, d, h))
   \<and> (fst (print d h x y txt options) = Return res
      \<longrightarrow> res = (Return True \<in> set (print_draws d (font options) h y
                    \<lparr>color = color options, fill = fill options\<rparr> txt x)))
   \<and> (color options \<noteq> CNull \<longrightarrow> (\<exists>res. fst (print d h x y txt options) = Return res))
   \<and> (glyphs (font options) = Map.empty
      \<longrightarrow> print d h x y txt options = (Return False, d, h))"
proof (intro conjI impI)
  assume "glyphs (font options) [c] = None"
  then show "print d h x y (c # cs) options = print d h x y cs options"
    by (cases cs) (simp_all add: print_def)
next
  let ?o = "\<lparr>color = color options, fill = fill options\<rparr>"
  let ?h1 = "h(r := (h r)\<lparr>width := Some (advance_width (h r))\<rparr>)"
  let ?cx = "x + (advance_width (h r) + 1)"
  assume "glyphs (font options) [c] = Some r \<and> x \<le> dot_width d
        \<and> \<bar>advance_width (h r) + 1\<bar> \<le> 2 ^ 53 \<and> \<bar>x + (advance_width (h r) + 1)\<bar> \<le> 2 ^ 53
        \<and> draw d x y (rows (h r)) ?o = (Return v, d1)"
  then have step: "print_loop d (font options) h y ?o (c # cs) x 0
      = print_loop d1 (font options) ?h1 y ?o cs ?cx (if v then 0 + 1 else 0)"
    by (simp add: Let_def width_value_cache) (simp add: cache_width_eq)
  have pp: "print_loop d1 (font options) ?h1 y ?o cs ?cx (if v then 0 + 1 else 0)
      = (case print_loop d1 (font options) ?h1 y ?o cs ?cx 0 of
              (Return b, rest) \<Rightarrow> (Return (0 < (if v then 0 + 1 else (0::nat)) \<or> b), rest)
            | (Throw e, rest) \<Rightarrow> (Throw e, rest))"
    by (rule print_loop_printed)
  have P1: "print d h x y (c # cs) options = print_loop d (font options) h y ?o (c # cs) x 0"
    by (simp only: print_def)
  have P2: "print d1 ?h1 ?cx y cs options = print_loop d1 (font options) ?h1 y ?o cs ?cx 0"
    by (simp only: print_def)
  show "print d h x y (c # cs) options =
           (case print d1 ?h1 ?cx y cs options of
              (Return b, rest) \<Rightarrow> (Return (v \<or> b), rest)
            | (Throw e, rest) \<Rightarrow> (Throw e, rest))"
    unfolding P1 P2 step pp
    by (cases "print_loop d1 (font options) ?h1 y ?o cs ?cx 0"; cases v)
       (simp_all split: completion.splits)
next
  assume "dot_width d < x"
  then show "print d h x y txt options = (Return False, d, h)"
    by (simp add: print_def print_loop_past_width)
next
  assume "fst (print d h x y txt options) = Return res"
  then show "res = (Return True \<in> set (print_draws d (font options) h y
                    \<lparr>color = color options, fill = fill options\<rparr> txt x))"
    using print_loop_draws [of d "font options" h y
        "\<lparr>color = color options, fill = fill options\<rparr>" "txt" x 0 res]
    by (simp add: print_def)
next
  assume "color options \<noteq> CNull"
  then show "\<exists>res. fst (print d h x y txt options) = Return res"
    using print_loop_returns [of "\<lparr>color = color options, fill = fill options\<rparr>" d
        "font options" h y "txt" x 0]
    by (simp add: print_def)
next
  assume "glyphs (font options) = Map.empty"
  then show "print d h x y txt options = (Return False, d, h)"
    by (simp add: print_def print_loop_no_glyphs)
qed

lemma draw_A_returns: "fst (draw display4 0 0 shape_A white) = Return True"
  by (simp add: draw_def shape_A_def white_def Let_def put_led_def)

text \<open>
  The examples of the specification: with the empty font \<open>print(0, 0, 'Z')\<close> returns false
  and changes nothing; with the font of the glyph A, the unknown Z is skipped, and
  \<open>print(0, 0, 'A')\<close> returns true, draws the glyph and caches its width 3; from column 5
  of the display four wide nothing happens. In the font whose \<open>a\<close> and \<open>A\<close> hold one glyph,
  printing \<open>a\<close> caches the width that \<open>A\<close> then finds.
\<close>

theorem print_skips_and_advances_witness:
  "glyphs (font options_none) = Map.empty
   \<and> print display4 heap_A 0 0 ''Z'' options_none = (Return False, display4, heap_A)
   \<and> glyphs (font options_A) ''Z'' = None
   \<and> print display4 heap_A 0 0 ''ZA'' options_A = print display4 heap_A 0 0 ''A'' options_A
   \<and> glyphs (font options_A) ''A'' = Some 0 \<and> 0 \<le> dot_width display4
   \<and> advance_width (heap_A 0) = 3
   \<and> \<bar>advance_width (heap_A 0) + 1\<bar> \<le> 2 ^ 53 \<and> \<bar>0 + (advance_width (heap_A 0) + 1)\<bar> \<le> 2 ^ 53
   \<and> print display4 heap_A 0 0 ''A'' options_A =
       (Return True, snd (draw display4 0 0 shape_A white),
        heap_A(0 := glyph_A\<lparr>width := Some 3\<rparr>))
   \<and> Return True \<in> set (print_draws display4 font_A heap_A 0 white ''A'' 0)
   \<and> dot_width display4 < 5
   \<and> print display4 heap_A 5 0 ''A'' options_A = (Return False, display4, heap_A)
   \<and> glyphs (font options_aA) ''a'' = Some 0 \<and> glyphs (font options_aA) ''A'' = Some 0
   \<and> width (snd (snd (print display4 heap_A 0 0 ''a'' options_aA)) 0) = Some 3"
proof -
  have e: "glyphs (font options_none) = Map.empty"
    by (simp add: options_none_def font_none_def)
  have none: "print display4 heap_A 0 0 ''Z'' options_none = (Return False, display4, heap_A)"
    using print_skips_and_advances [of options_none _ display4 heap_A 0 0 _ _ _ _ "''Z''",
        THEN conjunct2, THEN conjunct2, THEN conjunct2, THEN conjunct2, THEN conjunct2] e
    by simp
  have z: "glyphs (font options_A) ''Z'' = None"
    by (simp add: options_A_def font_A_def)
  have skip: "print display4 heap_A 0 0 ''ZA'' options_A = print display4 heap_A 0 0 ''A'' options_A"
    using print_skips_and_advances [of options_A "CHR ''Z''" display4 heap_A 0 0 "''A''",
        THEN conjunct1] z
    by simp
  have a: "glyphs (font options_A) ''A'' = Some 0"
    by (simp add: options_A_def font_A_def)
  have hA: "heap_A 0 = glyph_A" by (simp add: heap_A_def)
  have wA: "advance_width glyph_A = 3"
    by (simp add: advance_width_def glyph_A_def)
  have w: "advance_width (heap_A 0) = 3"
    by (simp add: hA wA)
  have bd: "\<bar>advance_width (heap_A 0) + 1\<bar> \<le> 2 ^ 53"
      "\<bar>0 + (advance_width (heap_A 0) + 1)\<bar> \<le> 2 ^ 53"
    by (simp_all add: w)
  have o: "\<lparr>color = color options_A, fill = fill options_A\<rparr> = white"
      "\<lparr>color = color options_aA, fill = fill options_aA\<rparr> = white"
      "rows (heap_A 0) = shape_A" "font options_A = font_A"
    by (simp_all add: options_A_def options_aA_def white_def hA glyph_A_def shape_A_def)
  have dr: "draw display4 0 0 (rows (heap_A 0)) \<lparr>color = color options_A, fill = fill options_A\<rparr>
      = (Return True, snd (draw display4 0 0 shape_A white))"
    unfolding o using draw_A_returns by (cases "draw display4 0 0 shape_A white") simp
  have "print display4 heap_A 0 0 ''A'' options_A =
      (case print (snd (draw display4 0 0 shape_A white))
              (heap_A(0 := (heap_A 0)\<lparr>width := Some (advance_width (heap_A 0))\<rparr>))
              (0 + (advance_width (heap_A 0) + 1)) 0 [] options_A of
         (Return b, rest) \<Rightarrow> (Return (True \<or> b), rest)
       | (Throw e, rest) \<Rightarrow> (Throw e, rest))"
    using print_skips_and_advances [of options_A "CHR ''A''" display4 heap_A 0 0 "[]" 0 True
        "snd (draw display4 0 0 shape_A white)", THEN conjunct2, THEN conjunct1] a dr bd
    by simp
  then have pr: "print display4 heap_A 0 0 ''A'' options_A =
       (Return True, snd (draw display4 0 0 shape_A white),
        heap_A(0 := glyph_A\<lparr>width := Some 3\<rparr>))"
    by (simp add: wA print_def hA)
  have "Return True \<in> set (print_draws display4 (font options_A) heap_A 0
      \<lparr>color = color options_A, fill = fill options_A\<rparr> ''A'' 0)"
    using print_skips_and_advances [of options_A _ display4 heap_A 0 0 _ _ _ _ "''A''" True,
        THEN conjunct2, THEN conjunct2, THEN conjunct2, THEN conjunct1] pr
    by simp
  then have tr: "Return True \<in> set (print_draws display4 font_A heap_A 0 white ''A'' 0)"
    unfolding o .
  have guard: "dot_width display4 < 5" by simp
  then have past: "print display4 heap_A 5 0 ''A'' options_A = (Return False, display4, heap_A)"
    by (rule print_skips_and_advances [of options_A _ display4 heap_A 5 0 _ _ _ _ "''A''",
        THEN conjunct2, THEN conjunct2, THEN conjunct1, THEN mp])
  have sh: "glyphs (font options_aA) ''a'' = Some 0" "glyphs (font options_aA) ''A'' = Some 0"
    by (simp_all add: options_aA_def font_aA_def)
  have dr': "draw display4 0 0 (rows (heap_A 0)) \<lparr>color = color options_aA, fill = fill options_aA\<rparr>
      = (Return True, snd (draw display4 0 0 shape_A white))"
    unfolding o using draw_A_returns by (cases "draw display4 0 0 shape_A white") simp
  have "print display4 heap_A 0 0 ''a'' options_aA =
      (case print (snd (draw display4 0 0 shape_A white))
              (heap_A(0 := (heap_A 0)\<lparr>width := Some (advance_width (heap_A 0))\<rparr>))
              (0 + (advance_width (heap_A 0) + 1)) 0 [] options_aA of
         (Return b, rest) \<Rightarrow> (Return (True \<or> b), rest)
       | (Throw e, rest) \<Rightarrow> (Throw e, rest))"
    using print_skips_and_advances [of options_aA "CHR ''a''" display4 heap_A 0 0 "[]" 0 True
        "snd (draw display4 0 0 shape_A white)", THEN conjunct2, THEN conjunct1] sh(1) dr' bd
    by simp
  then have shared: "width (snd (snd (print display4 heap_A 0 0 ''a'' options_aA)) 0) = Some 3"
    by (simp add: wA print_def hA)
  show ?thesis using e none z skip a w bd pr tr guard past sh shared by simp
qed

text \<open>
  The claim as the specification words it fails past the right edge: on the display four
  wide, \<open>print(5, 0, 'A')\<close> with the glyph of A present makes no call of \<^verbatim>\<open>draw\<close>,
  leaves the width of the glyph undefined and returns false; the character does not move
  the cursor, the loop has ended.
\<close>

theorem print_past_width_counterexample:
  "glyphs (font options_A) ''A'' = Some 0 \<and> width (heap_A 0) = None
   \<and> dot_width display4 < 5
   \<and> print display4 heap_A 5 0 ''A'' options_A = (Return False, display4, heap_A)
   \<and> print_draws display4 font_A heap_A 0 white ''A'' 5 = []"
  by (simp add: options_A_def font_A_def heap_A_def glyph_A_def print_def
      print_loop_past_width print_draws_past_width)

end
